theory Spec2Isabelle
  imports Complex_Main
begin

section \<open>Maxwell filtering (mne/preprocessing/maxwell.py)\<close>

text \<open>
  The embedding follows the Python source function by function. NumPy's float64 numbers
  are idealised as exact reals. A float that the source can make non-finite out of finite
  inputs (a quotient whose divisor is zero, or any operation on such a value) is a
  \<open>real option\<close> with \<open>None\<close> for a value that is not a finite number; a comparison
  with it is false, as a comparison with NaN is in IEEE arithmetic. On the coordinates
  that \<open>_cart_to_sph\<close> returns the zero divisors are a zero radius, and the sine of a polar
  angle on the polar axis, where the dividend of the source is zero or NaN as well (the
  associated Legendre functions of positive order vanish at \<open>1\<close> and \<open>-1\<close>), so the value
  is NaN. Python's unbounded integers are \<open>int\<close>. Every \<open>raise\<close> of the source, and
  every exception of a list or array access, is a value of the type \<open>error\<close>.
\<close>

subsection \<open>Errors and numeric types\<close>

datatype error =
    BadChannels                \<comment> \<open>RuntimeError, line 64\<close>
  | NoMegChannels              \<comment> \<open>RuntimeError, line 486\<close>
  | TooManyBases int nat       \<comment> \<open>ValueError, line 140: requested bases, sensors\<close>
  | HarmonicOrder              \<comment> \<open>ValueError, line 204\<close>
  | AzimuthRange               \<comment> \<open>ValueError, line 207\<close>
  | PolarRange                 \<comment> \<open>ValueError, line 209\<close>
  | NegativeDimension          \<comment> \<open>ValueError of np.empty on a negative shape\<close>
  | IndexError                 \<comment> \<open>index out of range of a list or array\<close>
  | NotInList                  \<comment> \<open>ValueError of list.index\<close>
  | NonFinite                  \<comment> \<open>ValueError of scipy's pinv on NaN entries\<close>
  | ShapeMismatch              \<comment> \<open>ValueError of np.dot or of broadcasting\<close>

type_synonym vec3 = "real \<times> real \<times> real"
type_synonym npfloat = "real option"
type_synonym sph = "real \<times> real \<times> npfloat"

subsection \<open>Number of moments and column indices\<close>

definition get_num_moments :: "int \<Rightarrow> int \<Rightarrow> int" where
  "get_num_moments int_order ext_order =
     int_order ^ 2 + 2 * int_order + ext_order ^ 2 + 2 * ext_order"

text \<open>The column count of one basis matrix, lines 130 and 131.\<close>

definition basis_cols :: "int \<Rightarrow> int" where
  "basis_cols order = (order + 1) ^ 2 - 1"

text \<open>The column written for a degree and an order, line 166.\<close>

definition col_index :: "int \<Rightarrow> int \<Rightarrow> int" where
  "col_index deg order = deg ^ 2 + deg + order - 1"

text \<open>The (degree, order) pairs the two inner loops of lines 152 and 153 run through.\<close>

definition deg_order_pairs :: "int \<Rightarrow> (int \<times> int) list" where
  "deg_order_pairs order_bound =
     concat (map (\<lambda>deg. map (\<lambda>order. (deg, order)) [- deg..deg]) [1..order_bound])"

subsection \<open>Cartesian to spherical coordinates\<close>

text \<open>NumPy's arctan2 on finite arguments. The reals have one zero: where an argument is
  zero the value is the one NumPy gives for the positive zero (for a negative zero NumPy
  gives another value of \<open>[-\<pi>, \<pi>]\<close>, as \<open>arctan2(0.0, -0.0) = \<pi>\<close>). The theorems on
  arbitrary points use only the bounds \<open>-\<pi>\<close> and \<open>\<pi>\<close> of the azimuth, which hold for
  NumPy's values too; the zeros of the reference inputs are positive zeros.\<close>

definition arctan2 :: "real \<Rightarrow> real \<Rightarrow> real" where
  "arctan2 y x =
     (if 0 < x then arctan (y / x)
      else if x < 0 then (if 0 \<le> y then arctan (y / x) + pi else arctan (y / x) - pi)
      else if 0 < y then pi / 2
      else if y < 0 then - (pi / 2)
      else 0)"

text \<open>The float quotient \<open>a / b\<close> of NumPy: a zero divisor gives a warning and a value that
  is not a finite number (NaN for \<open>0 / 0\<close>), never an exception.\<close>

definition np_div :: "real \<Rightarrow> real \<Rightarrow> npfloat" where
  "np_div a b = (if b = 0 then None else Some (a / b))"

text \<open>\<open>np.linalg.norm\<close> of one row, as an exact square root: the float norm is zero also
  where the squares underflow. What is stated below about a zero radius is stated of the
  radius that is returned.\<close>

definition vnorm :: "vec3 \<Rightarrow> real" where
  "vnorm p = (case p of (x, y, z) \<Rightarrow> sqrt (x * x + y * y + z * z))"

definition cart_to_sph_pt :: "vec3 \<Rightarrow> sph" where
  "cart_to_sph_pt p =
     (case p of (x, y, z) \<Rightarrow>
        let rad = vnorm p;
            az = arctan2 y x;
            pol = map_option arccos (np_div z rad)
        in (rad, az, pol))"

text \<open>
  \<open>_cart_to_sph\<close>, lines 428 to 446. The source has no \<open>raise\<close>; NumPy's division by a
  zero radius gives a warning and NaN, not an exception, so the result is always \<open>Inr\<close>.
\<close>

definition cart_to_sph :: "vec3 list \<Rightarrow> error + sph list" where
  "cart_to_sph cart_pts = Inr (map cart_to_sph_pt cart_pts)"

subsection \<open>Arithmetic on floats that may be NaN\<close>

definition lift2 :: "('a \<Rightarrow> 'b \<Rightarrow> 'c) \<Rightarrow> 'a option \<Rightarrow> 'b option \<Rightarrow> 'c option" where
  "lift2 f a b = (case a of None \<Rightarrow> None | Some x \<Rightarrow> map_option (f x) b)"

definition np_pow :: "real \<Rightarrow> int \<Rightarrow> npfloat" where
  "np_pow x n = (if 0 \<le> n then Some (x ^ nat n) else np_div 1 (x ^ nat (- n)))"

subsection \<open>Spherical harmonics and their gradients\<close>

text \<open>
  scipy's \<open>lpmv\<close> (the associated Legendre function) is a parameter of the model;
  scipy's \<open>factorial\<close> is \<open>fact\<close>. The coordinate arrays, which the callers cut from the
  columns of one array, are lists of tuples.
\<close>

type_synonym lpmv_fn = "int \<Rightarrow> int \<Rightarrow> real \<Rightarrow> real"

text \<open>\<open>_sph_harmonic\<close>, lines 175 to 218.\<close>

definition sph_harmonic ::
  "lpmv_fn \<Rightarrow> int \<Rightarrow> int \<Rightarrow> (real \<times> npfloat) list \<Rightarrow> error + complex option list" where
  "sph_harmonic lpmv degree order angles =
     (if \<bar>order\<bar> > degree then Inl HarmonicOrder
      else if list_ex (\<lambda>(az, pol). az < - 2 * pi) angles
              \<or> list_ex (\<lambda>(az, pol). az > 2 * pi) angles then Inl AzimuthRange
      else if list_ex (\<lambda>(az, pol). case pol of None \<Rightarrow> False | Some p \<Rightarrow> p < 0) angles
              \<or> list_ex (\<lambda>(az, pol). case pol of None \<Rightarrow> False | Some p \<Rightarrow> p > pi) angles
           then Inl PolarRange
      else Inr (map (\<lambda>(az, pol).
             map_option (\<lambda>p.
               complex_of_real (sqrt ((2 * of_int degree + 1) / (4 * pi)
                    * fact (nat (degree - order)) / fact (nat (degree + order))))
               * complex_of_real (lpmv order degree (cos p))
               * exp (\<i> * of_int order * complex_of_real az)) pol) angles))"

text \<open>\<open>_alegendre_deriv\<close>, lines 221 to 247.\<close>

definition alegendre_deriv :: "lpmv_fn \<Rightarrow> int \<Rightarrow> int \<Rightarrow> real \<Rightarrow> npfloat" where
  "alegendre_deriv lpmv degree order0 val =
     (let order = (if order0 < 0 then \<bar>order0\<bar> else order0);
          C = (if order0 < 0
               then (- 1) ^ nat order * fact (nat (degree - order)) / fact (nat (degree + order))
               else 1)
      in np_div (C * (of_int order * val * lpmv order degree val
                      + of_int (degree + order) * of_int (degree - order + 1)
                        * sqrt (1 - val ^ 2) * lpmv (order - 1) degree val))
                (1 - val ^ 2))"

text \<open>\<open>_get_real_grad\<close>, lines 340 to 363, on one row. For order 0 the rows the callers
  pass have no imaginary part, and \<open>np.real_if_close\<close> returns their real part.\<close>

type_synonym cgrad = "complex option \<times> complex option \<times> complex option"
type_synonym rgrad = "npfloat \<times> npfloat \<times> npfloat"

definition get_real_grad_row :: "int \<Rightarrow> cgrad \<Rightarrow> rgrad" where
  "get_real_grad_row order g =
     (case g of (g_rad, g_az, g_pol) \<Rightarrow>
        if order > 0 then
          (map_option (\<lambda>c. sqrt 2 * Re c) g_rad, map_option (\<lambda>c. sqrt 2 * Re c) g_az,
           map_option (\<lambda>c. sqrt 2 * Re c) g_pol)
        else if order < 0 then
          (map_option (\<lambda>c. sqrt 2 * Im c) g_rad, map_option (\<lambda>c. sqrt 2 * Im c) g_az,
           map_option (\<lambda>c. sqrt 2 * Im c) g_pol)
        else (map_option Re g_rad, map_option Re g_az, map_option Re g_pol))"

definition get_real_grad :: "cgrad list \<Rightarrow> int \<Rightarrow> rgrad list" where
  "get_real_grad grad_vec_raw order = map (get_real_grad_row order) grad_vec_raw"

text \<open>\<open>_sph_to_cart_partials\<close>, lines 388 to 425: one row of the loop, then the loop over
  the zipped rows; rows of \<open>sph_grads\<close> beyond the points keep the zeros of
  \<open>np.zeros_like\<close>.\<close>

definition sph_to_cart_row :: "sph \<Rightarrow> rgrad \<Rightarrow> rgrad" where
  "sph_to_cart_row sph_pt sph_grad =
     (case sph_pt of (rad, az, pol) \<Rightarrow> case sph_grad of (g0, g1, g2) \<Rightarrow>
        (case pol of
           None \<Rightarrow> (None, None, None)
         | Some p \<Rightarrow>
             let c_a = cos az; s_a = sin az; c_p = cos p; s_p = sin p;
                 dot3 = (\<lambda>a b c. lift2 (+) (lift2 (+) (map_option ((*) a) g0)
                                   (map_option ((*) b) g1)) (map_option ((*) c) g2))
             in (dot3 (c_a * s_p) (- s_a) (c_a * c_p),
                 dot3 (s_a * s_p) c_a (c_p * s_a),
                 dot3 c_p 0 (- s_p))))"

definition sph_to_cart_partials :: "sph list \<Rightarrow> rgrad list \<Rightarrow> rgrad list" where
  "sph_to_cart_partials sph_pts sph_grads =
     map2 sph_to_cart_row sph_pts sph_grads
     @ replicate (length sph_grads - length sph_pts) (Some 0, Some 0, Some 0)"

definition np_divo :: "npfloat \<Rightarrow> npfloat \<Rightarrow> npfloat" where
  "np_divo a b = Option.bind a (\<lambda>x. Option.bind b (np_div x))"

definition cscale :: "npfloat \<Rightarrow> complex option \<Rightarrow> complex option" where
  "cscale a c = lift2 (\<lambda>x y. complex_of_real x * y) a c"

text \<open>The three expressions of lines 277 to 288 at one point, given the two values of
  \<open>_sph_harmonic\<close> there.\<close>

definition grad_in_row ::
  "lpmv_fn \<Rightarrow> int \<Rightarrow> int \<Rightarrow> sph \<Rightarrow> complex option \<Rightarrow> complex option \<Rightarrow> cgrad" where
  "grad_in_row lpmv degree order pt y_rad y_az =
     (case pt of (rad, az, pol) \<Rightarrow>
        let rpow = np_pow rad (degree + 2);
            g_rad = cscale (np_divo (Some (- (of_int degree + 1))) rpow) y_rad;
            g_az = cscale (np_divo (Some 1) (lift2 (*) rpow (map_option sin pol)))
                     (map_option (\<lambda>y. \<i> * of_int order * y) y_az);
            g_pol = cscale
                     (lift2 (*)
                        (lift2 (*)
                           (map_option (\<lambda>q. q * sqrt ((2 * of_int degree + 1)
                                  * fact (nat (degree - order))
                                  / (4 * pi * fact (nat (degree + order)))))
                              (np_divo (Some 1) rpow))
                           (map_option (\<lambda>p. - sin p) pol))
                        (Option.bind pol (\<lambda>p. alegendre_deriv lpmv degree order (cos p))))
                     (Some (exp (\<i> * of_int order * complex_of_real az)))
        in (g_rad, g_az, g_pol))"

text \<open>\<open>_grad_in_components\<close>, lines 250 to 292.\<close>

definition grad_in_components ::
  "lpmv_fn \<Rightarrow> int \<Rightarrow> int \<Rightarrow> sph list \<Rightarrow> error + rgrad list" where
  "grad_in_components lpmv degree order pts =
     (case sph_harmonic lpmv degree order (map snd pts) of
        Inl e \<Rightarrow> Inl e
      | Inr y_rad \<Rightarrow>
        (case sph_harmonic lpmv degree order (map snd pts) of
           Inl e \<Rightarrow> Inl e
         | Inr y_az \<Rightarrow>
             Inr (sph_to_cart_partials pts
                    (get_real_grad
                       (map (\<lambda>(pt, y1, y2). grad_in_row lpmv degree order pt y1 y2)
                          (zip pts (zip y_rad y_az)))
                       order))))"

text \<open>The three expressions of lines 322 to 333 at one point.\<close>

definition grad_out_row ::
  "lpmv_fn \<Rightarrow> int \<Rightarrow> int \<Rightarrow> sph \<Rightarrow> complex option \<Rightarrow> complex option \<Rightarrow> cgrad" where
  "grad_out_row lpmv degree order pt y_rad y_az =
     (case pt of (rad, az, pol) \<Rightarrow>
        let rpow = np_pow rad (degree - 1);
            g_rad = cscale (map_option (\<lambda>q. of_int degree * q) rpow) y_rad;
            g_az = cscale (np_divo rpow (map_option sin pol))
                     (map_option (\<lambda>y. \<i> * of_int order * y) y_az);
            g_pol = cscale
                     (lift2 (*)
                        (lift2 (*)
                           (map_option (\<lambda>q. q * sqrt ((2 * of_int degree + 1)
                                  * fact (nat (degree - order))
                                  / (4 * pi * fact (nat (degree + order))))) rpow)
                           (map_option (\<lambda>p. - sin p) pol))
                        (Option.bind pol (\<lambda>p. alegendre_deriv lpmv degree order (cos p))))
                     (Some (exp (\<i> * of_int order * complex_of_real az)))
        in (g_rad, g_az, g_pol))"

text \<open>\<open>_grad_out_components\<close>, lines 295 to 337.\<close>

definition grad_out_components ::
  "lpmv_fn \<Rightarrow> int \<Rightarrow> int \<Rightarrow> sph list \<Rightarrow> error + rgrad list" where
  "grad_out_components lpmv degree order pts =
     (case sph_harmonic lpmv degree order (map snd pts) of
        Inl e \<Rightarrow> Inl e
      | Inr y_rad \<Rightarrow>
        (case sph_harmonic lpmv degree order (map snd pts) of
           Inl e \<Rightarrow> Inl e
         | Inr y_az \<Rightarrow>
             Inr (sph_to_cart_partials pts
                    (get_real_grad
                       (map (\<lambda>(pt, y1, y2). grad_out_row lpmv degree order pt y1 y2)
                          (zip pts (zip y_rad y_az)))
                       order))))"

subsection \<open>Coils\<close>

text \<open>A coil description: the channel name, the coil class, and the integration points,
  each with its position \<open>rmag\<close>, its normal \<open>cosmag\<close> and its weight \<open>w\<close>.\<close>

record coil =
  chname :: string
  coil_class :: real
  int_points :: "(vec3 \<times> vec3 \<times> real) list"

text \<open>Modelled from the spec: \<open>_concatenate_coils\<close> (mne.forward._compute_forward) is not
  part of the source file. It concatenates all coils' integration points, normals and
  weights, and gives the per-coil point counts.\<close>

definition concatenate_coils ::
  "coil list \<Rightarrow> vec3 list \<times> vec3 list \<times> real list \<times> nat list" where
  "concatenate_coils coils =
     (concat (map (\<lambda>c. map fst (int_points c)) coils),
      concat (map (\<lambda>c. map (\<lambda>p. fst (snd p)) (int_points c)) coils),
      concat (map (\<lambda>c. map (\<lambda>p. snd (snd p)) (int_points c)) coils),
      map (\<lambda>c. length (int_points c)) coils)"

text \<open>The magnetometer scaling of lines 81 and 82, and of lines 136 and 137.\<close>

definition coil_scale_of :: "coil list \<Rightarrow> real list" where
  "coil_scale_of coils = map (\<lambda>c. if coil_class c = 1.0 then 100 else 1) coils"

subsection \<open>Array helpers\<close>

type_synonym matrix = "npfloat list list"

definition np_index :: "nat \<Rightarrow> int \<Rightarrow> error + nat" where
  "np_index n i =
     (if 0 \<le> i \<and> i < int n then Inr (nat i)
      else if - int n \<le> i \<and> i < 0 then Inr (nat (i + int n))
      else Inl IndexError)"

text \<open>The assignment \<open>spc[pt_i, col] = v\<close>; it returns the column written as well.\<close>

definition set_cell :: "matrix \<Rightarrow> nat \<Rightarrow> int \<Rightarrow> npfloat \<Rightarrow> error + (nat \<times> matrix)" where
  "set_cell spc pt_i col v =
     (if pt_i < length spc then
        (case np_index (length (spc ! pt_i)) col of
           Inl e \<Rightarrow> Inl e
         | Inr c \<Rightarrow> Inr (c, spc[pt_i := (spc ! pt_i)[c := v]]))
      else Inl IndexError)"

definition np_sum :: "npfloat list \<Rightarrow> npfloat" where
  "np_sum xs = foldr (lift2 (+)) xs (Some 0)"

definition py_slice :: "'a list \<Rightarrow> nat \<Rightarrow> nat \<Rightarrow> 'a list" where
  "py_slice xs a b = take (b - a) (drop a xs)"

text \<open>\<open>np.insert(np.cumsum(int_pts), obj=0, values=0)\<close>, line 128.\<close>

fun cumsum_from :: "nat \<Rightarrow> nat list \<Rightarrow> nat list" where
  "cumsum_from acc [] = []"
| "cumsum_from acc (n # ns) = (acc + n) # cumsum_from (acc + n) ns"

definition int_lens_of :: "nat list \<Rightarrow> nat list" where
  "int_lens_of int_pts = 0 # cumsum_from 0 int_pts"

subsection \<open>The basis matrices\<close>

type_synonym g_func = "int \<Rightarrow> int \<Rightarrow> sph list \<Rightarrow> error + rgrad list"
type_synonym wlog = "(nat \<times> nat) list"

text \<open>Line 160: the gradients dotted with the normals, times the weights.\<close>

definition weighted_dots :: "rgrad list \<Rightarrow> vec3 list \<Rightarrow> real list \<Rightarrow> npfloat list" where
  "weighted_dots grads ncoils wcoils =
     map (\<lambda>(g, n, w).
            case g of (g0, g1, g2) \<Rightarrow> case n of (n0, n1, n2) \<Rightarrow>
              map_option ((*) w)
                (lift2 (+) (lift2 (+) (map_option (\<lambda>x. x * n0) g0) (map_option (\<lambda>x. x * n1) g1))
                   (map_option (\<lambda>x. x * n2) g2)))
         (zip grads (zip ncoils wcoils))"

text \<open>The loop of lines 163 to 166 over the sensors \<open>pt_i\<close>. The state is the matrix
  together with the log of the cells written so far.\<close>

fun fill_rows ::
  "npfloat list \<Rightarrow> nat list \<Rightarrow> int \<Rightarrow> nat list \<Rightarrow> wlog \<times> matrix \<Rightarrow> wlog \<times> (error + matrix)" where
  "fill_rows all_grads int_lens col [] (wl, spc) = (wl, Inr spc)"
| "fill_rows all_grads int_lens col (pt_i # rest) (wl, spc) =
     (let int_pts_sum = np_sum (py_slice all_grads (int_lens ! pt_i) (int_lens ! (pt_i + 1)))
      in case set_cell spc pt_i col int_pts_sum of
           Inl e \<Rightarrow> (wl, Inl e)
         | Inr (c, spc') \<Rightarrow> fill_rows all_grads int_lens col rest (wl @ [(pt_i, c)], spc'))"

text \<open>The loops of lines 152 and 153 over the degrees and orders, with the body of
  lines 156 to 166.\<close>

fun fill_pairs ::
  "g_func \<Rightarrow> sph list \<Rightarrow> vec3 list \<Rightarrow> real list \<Rightarrow> nat list \<Rightarrow> (int \<times> int) list
     \<Rightarrow> wlog \<times> matrix \<Rightarrow> wlog \<times> (error + matrix)" where
  "fill_pairs g cvec_sph ncoils wcoils int_lens [] (wl, spc) = (wl, Inr spc)"
| "fill_pairs g cvec_sph ncoils wcoils int_lens ((deg, order) # rest) (wl, spc) =
     (case g deg order cvec_sph of
        Inl e \<Rightarrow> (wl, Inl e)
      | Inr gr \<Rightarrow>
          let grads = map (\<lambda>(g0, g1, g2). (map_option ((*) (- 1)) g0, map_option ((*) (- 1)) g1,
                                        map_option ((*) (- 1)) g2)) gr;
              all_grads = weighted_dots grads ncoils wcoils
          in (case fill_rows all_grads int_lens (col_index deg order)
                     [0..<length int_lens - 1] (wl, spc) of
                (wl', Inl e) \<Rightarrow> (wl', Inl e)
              | (wl', Inr spc') \<Rightarrow> fill_pairs g cvec_sph ncoils wcoils int_lens rest (wl', spc')))"

text \<open>Lines 169 and 170: the rows are scaled, then every column is divided by its norm.\<close>

definition scale_rows :: "real list \<Rightarrow> matrix \<Rightarrow> matrix" where
  "scale_rows coil_scale spc = map2 (\<lambda>s row. map (map_option (\<lambda>x. x * s)) row) coil_scale spc"

definition col_sumsq :: "matrix \<Rightarrow> nat \<Rightarrow> npfloat" where
  "col_sumsq spc c = np_sum (map (\<lambda>row. lift2 (*) (row ! c) (row ! c)) spc)"

definition normalize_cols :: "nat \<Rightarrow> matrix \<Rightarrow> matrix" where
  "normalize_cols ncols spc =
     map (\<lambda>row. map2 np_divo row (map (\<lambda>c. map_option sqrt (col_sumsq spc c)) [0..<ncols])) spc"

text \<open>One turn of the outer loop of line 149 up to line 169: one of the two matrices,
  filled from its NaN initialisation and scaled.\<close>

definition fill_side ::
  "g_func \<Rightarrow> int \<Rightarrow> sph list \<Rightarrow> vec3 list \<Rightarrow> real list \<Rightarrow> nat list \<Rightarrow> real list \<Rightarrow> nat
     \<Rightarrow> wlog \<times> (error + matrix)" where
  "fill_side g order cvec_sph ncoils wcoils int_lens coil_scale n_sens =
     (let ncols = nat (basis_cols order);
          spc0 = replicate n_sens (replicate ncols None)
      in case fill_pairs g cvec_sph ncoils wcoils int_lens (deg_order_pairs order) ([], spc0) of
           (wl, Inl e) \<Rightarrow> (wl, Inl e)
         | (wl, Inr spc) \<Rightarrow> (wl, Inr (scale_rows coil_scale spc)))"

text \<open>The whole turn, with the division of line 170.\<close>

definition sss_side ::
  "g_func \<Rightarrow> int \<Rightarrow> sph list \<Rightarrow> vec3 list \<Rightarrow> real list \<Rightarrow> nat list \<Rightarrow> real list \<Rightarrow> nat
     \<Rightarrow> wlog \<times> (error + matrix)" where
  "sss_side g order cvec_sph ncoils wcoils int_lens coil_scale n_sens =
     (case fill_side g order cvec_sph ncoils wcoils int_lens coil_scale n_sens of
        (wl, Inl e) \<Rightarrow> (wl, Inl e)
      | (wl, Inr spc) \<Rightarrow> (wl, Inr (normalize_cols (nat (basis_cols order)) spc)))"

datatype side = Internal | External

definition vsub :: "vec3 \<Rightarrow> vec3 \<Rightarrow> vec3" where
  "vsub p q = (case p of (a, b, c) \<Rightarrow> case q of (x, y, z) \<Rightarrow> (a - x, b - y, c - z))"

text \<open>\<open>_sss_basis\<close>, lines 104 to 172, for any two gradient functions. The result comes
  with the log of the cells written, in the order of the writes.\<close>

definition sss_basis_with ::
  "g_func \<Rightarrow> g_func \<Rightarrow> vec3 \<Rightarrow> coil list \<Rightarrow> int \<Rightarrow> int
     \<Rightarrow> (side \<times> nat \<times> nat) list \<times> (error + matrix \<times> matrix)" where
  "sss_basis_with g_in g_out origin coils int_order ext_order =
     (case concatenate_coils coils of (r_int_pts, ncoils, wcoils, int_pts) \<Rightarrow>
        let n_sens = length int_pts;
            n_bases = get_num_moments int_order ext_order;
            int_lens = int_lens_of int_pts;
            coil_scale = coil_scale_of coils
        in if basis_cols int_order < 0 \<or> basis_cols ext_order < 0 then ([], Inl NegativeDimension)
           else if n_bases > int n_sens then ([], Inl (TooManyBases n_bases n_sens))
           else
             (case cart_to_sph (map (\<lambda>p. vsub p origin) r_int_pts) of
                Inl e \<Rightarrow> ([], Inl e)
              | Inr cvec_sph \<Rightarrow>
                (case sss_side g_in int_order cvec_sph ncoils wcoils int_lens coil_scale n_sens of
                   (wl_in, Inl e) \<Rightarrow> (map (Pair Internal) wl_in, Inl e)
                 | (wl_in, Inr S_in) \<Rightarrow>
                   (case sss_side g_out ext_order cvec_sph ncoils wcoils int_lens coil_scale
                           n_sens of
                      (wl_out, Inl e) \<Rightarrow>
                        (map (Pair Internal) wl_in @ map (Pair External) wl_out, Inl e)
                    | (wl_out, Inr S_out) \<Rightarrow>
                        (map (Pair Internal) wl_in @ map (Pair External) wl_out,
                         Inr (S_in, S_out))))))"

definition sss_basis ::
  "lpmv_fn \<Rightarrow> vec3 \<Rightarrow> coil list \<Rightarrow> int \<Rightarrow> int
     \<Rightarrow> (side \<times> nat \<times> nat) list \<times> (error + matrix \<times> matrix)" where
  "sss_basis lpmv origin coils int_order ext_order =
     sss_basis_with (grad_in_components lpmv) (grad_out_components lpmv)
       origin coils int_order ext_order"

subsection \<open>The data container\<close>

text \<open>A channel of the measurement info: its name and whether \<open>pick_types\<close> with
  \<open>meg=True\<close> selects it.\<close>

record channel =
  ch_name :: string
  is_meg :: bool

text \<open>One entry of \<open>info['proc_history']\<close>, lines 519 to 521.\<close>

record proc_info =
  pi_int_order :: int
  pi_ext_order :: int
  pi_origin :: vec3
  pi_nsens :: nat
  pi_nmoments :: nat
  pi_creator :: string

text \<open>The Raw object: the channels of its info (\<open>info['ch_names']\<close> is the list of their
  names), the bad channels, the two info keys \<open>_update_info\<close> sets (a key that is absent
  is \<open>None\<close>), and the data array with one row per channel and \<open>n_times\<close> columns.\<close>

record raw =
  chs :: "channel list"
  bads :: "string list"
  maxshield :: "bool option"
  proc_history :: "proc_info list option"
  raw_data :: "real list list"
  n_times :: nat

definition ch_names :: "raw \<Rightarrow> string list" where
  "ch_names r = map ch_name (chs r)"

text \<open>The geometry provider (\<open>_read_coil_defs\<close> and \<open>_create_coils\<close>, not part of the
  source file) is a parameter: for a channel it gives the coil class and the integration
  points of its coil.\<close>

type_synonym geometry = "channel \<Rightarrow> real \<times> (vec3 \<times> vec3 \<times> real) list"

text \<open>\<open>_make_coils\<close>, lines 451 to 513: one coil for every MEG channel, in the order of
  the channels.\<close>

definition coil_of :: "geometry \<Rightarrow> channel \<Rightarrow> coil" where
  "coil_of geom ch =
     \<lparr>chname = ch_name ch, coil_class = fst (geom ch), int_points = snd (geom ch)\<rparr>"

definition make_coils :: "geometry \<Rightarrow> raw \<Rightarrow> error + coil list" where
  "make_coils geom r =
     (let megchs = filter is_meg (chs r)
      in if length megchs \<le> 0 then Inl NoMegChannels
         else Inr (map (coil_of geom) megchs))"

text \<open>Python's \<open>list.index\<close>.\<close>

fun index_of :: "'a list \<Rightarrow> 'a \<Rightarrow> error + nat" where
  "index_of [] x = Inl NotInList"
| "index_of (y # ys) x =
     (if y = x then Inr 0 else case index_of ys x of Inl e \<Rightarrow> Inl e | Inr i \<Rightarrow> Inr (Suc i))"

text \<open>A list comprehension whose element expression can raise.\<close>

fun collect :: "('a \<Rightarrow> error + 'b) \<Rightarrow> 'a list \<Rightarrow> error + 'b list" where
  "collect f [] = Inr []"
| "collect f (x # xs) =
     (case f x of
        Inl e \<Rightarrow> Inl e
      | Inr y \<Rightarrow> (case collect f xs of Inl e \<Rightarrow> Inl e | Inr ys \<Rightarrow> Inr (y # ys)))"

definition list_get :: "'a list \<Rightarrow> nat \<Rightarrow> error + 'a" where
  "list_get xs i = (if i < length xs then Inr (xs ! i) else Inl IndexError)"

text \<open>Modelled from the spec: \<open>pick_channels\<close> (mne.channels) is not part of the source
  file. It restricts the container to the channels that are named; the source calls it as
  a statement on \<open>raw\<close> and drops its result, so the restriction is made in place.\<close>

definition pick_channels :: "raw \<Rightarrow> string list \<Rightarrow> raw" where
  "pick_channels r names =
     (let kept = filter (\<lambda>(ch, row). ch_name ch \<in> set names) (zip (chs r) (raw_data r))
      in r\<lparr>chs := map fst kept, raw_data := map snd kept\<rparr>)"

text \<open>\<open>raw[picks, :]\<close>, line 77.\<close>

definition raw_getitem :: "raw \<Rightarrow> nat list \<Rightarrow> error + real list list" where
  "raw_getitem r picks = collect (list_get (raw_data r)) picks"

text \<open>Lines 68 to 77. The first component is the container \<open>raw\<close> as the lines leave it.\<close>

definition select_channels ::
  "geometry \<Rightarrow> raw \<Rightarrow> raw \<times> (error + coil list \<times> nat list \<times> real list list)" where
  "select_channels geom r =
     (case make_coils geom r of
        Inl e \<Rightarrow> (r, Inl e)
      | Inr all_coils \<Rightarrow>
        (case collect (\<lambda>coil. index_of (ch_names r) (chname coil)) all_coils of
           Inl e \<Rightarrow> (r, Inl e)
         | Inr picks \<Rightarrow>
           (case collect (list_get all_coils) picks of
              Inl e \<Rightarrow> (r, Inl e)
            | Inr coils \<Rightarrow>
                let r1 = pick_channels r (map chname coils)
                in (case raw_getitem r1 picks of
                      Inl e \<Rightarrow> (r1, Inl e)
                    | Inr data \<Rightarrow> (r1, Inr (coils, picks, data))))))"

text \<open>\<open>_update_info\<close>, lines 516 to 530.\<close>

definition update_info :: "raw \<Rightarrow> vec3 \<Rightarrow> int \<Rightarrow> int \<Rightarrow> nat \<Rightarrow> nat \<Rightarrow> raw" where
  "update_info r origin int_order ext_order nsens nmoments =
     (let info_dict = \<lparr>pi_int_order = int_order, pi_ext_order = ext_order, pi_origin = origin,
                        pi_nsens = nsens, pi_nmoments = nmoments,
                        pi_creator = ''MNE's Maxwell Filter''\<rparr>
      in r\<lparr>maxshield := Some False,
            proc_history := (case proc_history r of
                               Some h \<Rightarrow> Some (info_dict # h)
                             | None \<Rightarrow> Some [info_dict])\<rparr>)"

subsection \<open>Projection and reconstruction\<close>

type_synonym rmat = "real list list"

text \<open>scipy's \<open>pinv\<close> is a parameter of the model: it takes the matrix and the cutoff
  \<open>cond\<close>. It checks its argument and raises a ValueError when an entry is not finite.\<close>

type_synonym pinv_fn = "rmat \<Rightarrow> real \<Rightarrow> rmat"

definition finite_matrix :: "matrix \<Rightarrow> error + rmat" where
  "finite_matrix S = (case those (map those S) of None \<Rightarrow> Inl NonFinite | Some M \<Rightarrow> Inr M)"

text \<open>\<open>np.dot\<close> of a matrix with \<open>k\<close> columns and a matrix with \<open>k\<close> rows and \<open>m\<close>
  columns.\<close>

definition np_dot :: "nat \<Rightarrow> nat \<Rightarrow> rmat \<Rightarrow> rmat \<Rightarrow> rmat" where
  "np_dot k m A B = map (\<lambda>row. map (\<lambda>j. \<Sum>l<k. row ! l * B ! l ! j) [0..<m]) A"

text \<open>\<open>data * coil_scale[:, np.newaxis]\<close> of line 92 and
  \<open>recon / coil_scale[:, np.newaxis]\<close> of line 99.\<close>

definition row_scale :: "rmat \<Rightarrow> real list \<Rightarrow> rmat" where
  "row_scale data coil_scale = map2 (\<lambda>row s. map (\<lambda>x. x * s) row) data coil_scale"

definition row_unscale :: "rmat \<Rightarrow> real list \<Rightarrow> rmat" where
  "row_unscale recon coil_scale = map2 (\<lambda>row s. map (\<lambda>x. x / s) row) recon coil_scale"

text \<open>Lines 87 to 94, for \<open>S_in\<close> with \<open>n_in\<close> columns and data with \<open>nt\<close> columns: the
  result is \<open>mm.shape[0]\<close> and \<open>recon\<close>. The two basis matrices are real matrices once
  \<open>pinv\<close> has checked them.\<close>

definition project ::
  "pinv_fn \<Rightarrow> nat \<Rightarrow> nat \<Rightarrow> matrix \<Rightarrow> matrix \<Rightarrow> rmat \<Rightarrow> real list \<Rightarrow> error + nat \<times> rmat" where
  "project pinv n_in nt S_in S_out data coil_scale =
     (case finite_matrix S_in of
        Inl e \<Rightarrow> Inl e
      | Inr Si \<Rightarrow>
        (case finite_matrix S_out of
           Inl e \<Rightarrow> Inl e
         | Inr So \<Rightarrow>
             let S_tot = map2 (@) Si So;
                 pS_tot = pinv S_tot (1 / 10 ^ 15);
                 scaled = row_scale data coil_scale
             in if \<not> list_all (\<lambda>row. length row = length scaled) pS_tot then Inl ShapeMismatch
                else
                  let mm = np_dot (length scaled) nt pS_tot scaled;
                      mm_in = take n_in mm
                  in if length mm_in \<noteq> n_in then Inl ShapeMismatch
                     else Inr (length mm, np_dot n_in nt Si mm_in)))"

text \<open>The assignment \<open>raw_sss._data[:, :] = value\<close> of line 99, with NumPy's broadcasting
  of a single row.\<close>

definition assign_all :: "rmat \<Rightarrow> rmat \<Rightarrow> error + rmat" where
  "assign_all target val =
     (if length val = length target then Inr val
      else if length val = 1 then Inr (replicate (length target) (hd val))
      else Inl ShapeMismatch)"

subsection \<open>The filter\<close>

datatype stage = CoilConstruction | BasisAssembly | Projection | Output

text \<open>\<open>maxwell_filter\<close>, lines 20 to 101. The result is the list of the stages the call
  has entered, the container \<open>raw\<close> as the call leaves it, and the error raised or the
  container returned.\<close>

definition maxwell_filter ::
  "lpmv_fn \<Rightarrow> pinv_fn \<Rightarrow> geometry \<Rightarrow> raw \<Rightarrow> vec3 \<Rightarrow> int \<Rightarrow> int
     \<Rightarrow> stage list \<times> raw \<times> (error + raw)" where
  "maxwell_filter lpmv pinv geom r origin int_order ext_order =
     (if length (bads r) > 0 then ([], r, Inl BadChannels)
      else
        (case select_channels geom r of
           (r1, Inl e) \<Rightarrow> ([CoilConstruction], r1, Inl e)
         | (r1, Inr (coils, picks, data)) \<Rightarrow>
             let coil_scale = coil_scale_of coils;
                 origin_m = (case origin of (x, y, z) \<Rightarrow> (x / 1000, y / 1000, z / 1000))
             in (case snd (sss_basis lpmv origin_m coils int_order ext_order) of
                   Inl e \<Rightarrow> ([CoilConstruction, BasisAssembly], r1, Inl e)
                 | Inr (S_in, S_out) \<Rightarrow>
                   (case project pinv (nat (basis_cols int_order)) (n_times r1)
                           S_in S_out data coil_scale of
                      Inl e \<Rightarrow> ([CoilConstruction, BasisAssembly, Projection], r1, Inl e)
                    | Inr (nmoments, recon) \<Rightarrow>
                        let raw_sss = update_info r1 origin_m int_order ext_order
                                        (length data) nmoments
                        in (case assign_all (raw_data raw_sss)
                                  (row_unscale recon coil_scale) of
                              Inl e \<Rightarrow>
                                ([CoilConstruction, BasisAssembly, Projection, Output], r1, Inl e)
                            | Inr d \<Rightarrow>
                                ([CoilConstruction, BasisAssembly, Projection, Output], r1,
                                 Inr (raw_sss\<lparr>raw_data := d\<rparr>)))))))"

subsection \<open>Reference inputs\<close>

text \<open>The cells of one basis matrix with \<open>n\<close> rows, in the order in which the loops of
  lines 152 to 166 write them for the order bound \<open>L\<close>.\<close>

definition cells :: "nat \<Rightarrow> int \<Rightarrow> wlog" where
  "cells n L = concat (map (\<lambda>(d, m). map (\<lambda>i. (i, nat (col_index d m))) [0..<n])
                         (deg_order_pairs L))"

text \<open>The associated Legendre function that scipy's \<open>lpmv\<close> computes (with the
  Condon-Shortley phase), by the standard recurrence in the degree; it instantiates the
  parameter \<open>lpmv\<close> at concrete inputs.\<close>

fun legendre_nat :: "nat \<Rightarrow> nat \<Rightarrow> real \<Rightarrow> real" where
  "legendre_nat m l x =
     (if l < m then 0
      else if l = m then (- 1) ^ m * (\<Prod>k<m. 2 * real k + 1) * sqrt (1 - x ^ 2) ^ m
      else if l = Suc m then x * (2 * real m + 1) * legendre_nat m m x
      else ((2 * real l - 1) * x * legendre_nat m (l - 1) x
            - (real l + real m - 1) * legendre_nat m (l - 2) x) / (real l - real m))"

definition lpmv_ref :: lpmv_fn where
  "lpmv_ref order degree x =
     (if 0 \<le> order then legendre_nat (nat order) (nat degree) x
      else (- 1) ^ nat (- order) * fact (nat (degree + order)) / fact (nat (degree - order))
           * legendre_nat (nat (- order)) (nat degree) x)"

text \<open>Three sensors with one integration point each, at unit distance from the origin
  in the plane \<open>z = 0\<close>, with radial normals; the first is a magnetometer.\<close>

definition demo_coils :: "coil list" where
  "demo_coils =
     [\<lparr>chname = ''MEG0111'', coil_class = 1.0, int_points = [((1, 0, 0), (1, 0, 0), 1)]\<rparr>,
      \<lparr>chname = ''MEG0112'', coil_class = 0.0, int_points = [((0, 1, 0), (0, 1, 0), 1)]\<rparr>,
      \<lparr>chname = ''MEG0113'', coil_class = 0.0, int_points = [((- 1, 0, 0), (- 1, 0, 0), 1)]\<rparr>]"

text \<open>The same three sensors with their normals along the \<open>z\<close> axis.\<close>

definition demo_coils_z :: "coil list" where
  "demo_coils_z =
     [\<lparr>chname = ''MEG0111'', coil_class = 1.0, int_points = [((1, 0, 0), (0, 0, 1), 1)]\<rparr>,
      \<lparr>chname = ''MEG0112'', coil_class = 0.0, int_points = [((0, 1, 0), (0, 0, 1), 1)]\<rparr>,
      \<lparr>chname = ''MEG0113'', coil_class = 0.0, int_points = [((- 1, 0, 0), (0, 0, 1), 1)]\<rparr>]"

text \<open>Three sensors with radial normals at unit distance from the origin, the first of
  them on the \<open>z\<close> axis above the origin.\<close>

definition demo_coils_axis :: "coil list" where
  "demo_coils_axis =
     [\<lparr>chname = ''MEG0111'', coil_class = 1.0, int_points = [((0, 0, 1), (0, 0, 1), 1)]\<rparr>,
      \<lparr>chname = ''MEG0112'', coil_class = 0.0, int_points = [((0, 1, 0), (0, 1, 0), 1)]\<rparr>,
      \<lparr>chname = ''MEG0113'', coil_class = 0.0, int_points = [((- 1, 0, 0), (- 1, 0, 0), 1)]\<rparr>]"

text \<open>Nine sensors with the same integration point and the same normal.\<close>

definition demo_coils_same :: "coil list" where
  "demo_coils_same =
     replicate 9 \<lparr>chname = ''MEG0111'', coil_class = 0.0,
                  int_points = [((1, 0, 0), (2 / 3, 2 / 3, 1 / 3), 1)]\<rparr>"

text \<open>Three sensors with the same integration point and the normals along the three
  axes; the first is a magnetometer.\<close>

definition demo_coils_xyz :: "coil list" where
  "demo_coils_xyz =
     [\<lparr>chname = ''MEG0111'', coil_class = 1.0, int_points = [((1, 0, 0), (1, 0, 0), 1)]\<rparr>,
      \<lparr>chname = ''MEG0112'', coil_class = 0.0, int_points = [((1, 0, 0), (0, 1, 0), 1)]\<rparr>,
      \<lparr>chname = ''MEG0113'', coil_class = 0.0, int_points = [((1, 0, 0), (0, 0, 1), 1)]\<rparr>]"

text \<open>A recording with three MEG channels followed by one EEG channel, two samples
  long, and the geometry that gives the three MEG channels the coils above.\<close>

definition demo_raw :: raw where
  "demo_raw =
     \<lparr>chs = [\<lparr>ch_name = ''MEG0111'', is_meg = True\<rparr>, \<lparr>ch_name = ''MEG0112'', is_meg = True\<rparr>,
             \<lparr>ch_name = ''MEG0113'', is_meg = True\<rparr>, \<lparr>ch_name = ''EEG001'', is_meg = False\<rparr>],
      bads = [], maxshield = None, proc_history = None,
      raw_data = [[1, 2], [3, 4], [5, 6], [7, 8]], n_times = 2\<rparr>"

definition demo_geom :: geometry where
  "demo_geom ch =
     (if ch_name ch = ''MEG0111'' then (1.0, [((1, 0, 0), (1, 0, 0), 1)])
      else if ch_name ch = ''MEG0112'' then (0.0, [((0, 1, 0), (0, 1, 0), 1)])
      else (0.0, [((- 1, 0, 0), (- 1, 0, 0), 1)]))"

text \<open>The value that line 166 writes for the sensor \<open>pt_i\<close>, from the gradients \<open>gr\<close> that
  \<open>g_func\<close> has returned for one degree and order.\<close>

definition int_pts_sum_of :: "rgrad list \<Rightarrow> vec3 list \<Rightarrow> real list \<Rightarrow> nat list \<Rightarrow> nat \<Rightarrow> npfloat" where
  "int_pts_sum_of gr ncoils wcoils int_lens pt_i =
     np_sum (py_slice
       (weighted_dots
          (map (\<lambda>(g0, g1, g2). (map_option ((*) (- 1)) g0, map_option ((*) (- 1)) g1,
                                 map_option ((*) (- 1)) g2)) gr) ncoils wcoils)
       (int_lens ! pt_i) (int_lens ! (pt_i + 1)))"

text \<open>A column of a basis matrix has unit Euclidean norm when its entries are numbers whose
  squares sum to one; it is a NaN column when every entry is NaN.\<close>

definition unit_column :: "matrix \<Rightarrow> nat \<Rightarrow> bool" where
  "unit_column S c =
     (case those (map (\<lambda>row. row ! c) S) of
        None \<Rightarrow> False
      | Some xs \<Rightarrow> sqrt (sum_list (map (\<lambda>x. x * x) xs)) = 1)"

definition nan_column :: "matrix \<Rightarrow> nat \<Rightarrow> bool" where
  "nan_column S c = list_all (\<lambda>row. row ! c = None) S"

text \<open>One basis matrix as line 169 leaves it, before the division of line 170.\<close>

definition sss_scaled :: "g_func \<Rightarrow> vec3 \<Rightarrow> coil list \<Rightarrow> int \<Rightarrow> error + matrix" where
  "sss_scaled g origin coils order =
     (case concatenate_coils coils of (r_int_pts, ncoils, wcoils, int_pts) \<Rightarrow>
        snd (fill_side g order (map cart_to_sph_pt (map (\<lambda>p. vsub p origin) r_int_pts))
               ncoils wcoils (int_lens_of int_pts) (coil_scale_of coils) (length int_pts)))"

text \<open>What lines 156 to 169 leave in one basis matrix: one row for every sensor, one cell
  for every column, and for every degree and order of the loops of lines 152 and 153, in
  the column of that degree and order, the value that line 166 writes for the sensor,
  times the scale of the sensor's row.\<close>

definition written_cells :: "g_func \<Rightarrow> vec3 \<Rightarrow> coil list \<Rightarrow> int \<Rightarrow> matrix \<Rightarrow> bool" where
  "written_cells g origin coils L M =
     (case concatenate_coils coils of (r_int_pts, ncoils, wcoils, int_pts) \<Rightarrow>
        let cvec_sph = map cart_to_sph_pt (map (\<lambda>p. vsub p origin) r_int_pts);
            int_lens = int_lens_of int_pts;
            coil_scale = coil_scale_of coils
        in length M = length int_pts
           \<and> list_all (\<lambda>row. length row = nat (basis_cols L)) M
           \<and> list_all (\<lambda>(deg, order).
                 case g deg order cvec_sph of
                   Inl e \<Rightarrow> False
                 | Inr gr \<Rightarrow>
                     list_all (\<lambda>pt_i. M ! pt_i ! nat (col_index deg order)
                                 = map_option (\<lambda>x. x * coil_scale ! pt_i)
                                     (int_pts_sum_of gr ncoils wcoils int_lens pt_i))
                       [0..<length int_pts])
               (deg_order_pairs L))"

text \<open>Lines 87 to 99 as a function of the data: the projection on the combined basis and
  the reconstruction from the internal part, with the scaling undone.\<close>

definition reconstruct ::
  "pinv_fn \<Rightarrow> nat \<Rightarrow> nat \<Rightarrow> matrix \<Rightarrow> matrix \<Rightarrow> rmat \<Rightarrow> real list \<Rightarrow> error + rmat" where
  "reconstruct pinv n_in nt S_in S_out data coil_scale =
     (case project pinv n_in nt S_in S_out data coil_scale of
        Inl e \<Rightarrow> Inl e
      | Inr (nmoments, recon) \<Rightarrow> Inr (row_unscale recon coil_scale))"

text \<open>The four equations that define the Moore-Penrose pseudo-inverse \<open>P\<close> (\<open>m\<close> rows,
  \<open>n\<close> columns) of a matrix \<open>A\<close> (\<open>n\<close> rows, \<open>m\<close> columns).\<close>

definition is_pinv :: "nat \<Rightarrow> nat \<Rightarrow> rmat \<Rightarrow> rmat \<Rightarrow> bool" where
  "is_pinv n m A P \<longleftrightarrow>
     np_dot n m (np_dot m n A P) A = A
     \<and> np_dot m n (np_dot n m P A) P = P
     \<and> transpose (np_dot m n A P) = np_dot m n A P
     \<and> transpose (np_dot n m P A) = np_dot n m P A"

section \<open>Properties\<close>

subsection \<open>Column indices\<close>

lemma get_num_moments_sum: "get_num_moments a b = basis_cols a + basis_cols b"
  by (simp add: get_num_moments_def basis_cols_def power2_eq_square algebra_simps)

lemma map_add_upto_int: "map (\<lambda>m. c + m) [a..b] = [c + a..c + (b::int)]"
proof (induction a b rule: upto.induct)
  case (1 i j)
  show ?case
  proof (cases "i \<le> j")
    case True
    then have a: "[i..j] = i # [i + 1..j]" by (rule upto_rec1)
    from True have "c + i \<le> c + j" by simp
    then have b: "[c + i..c + j] = (c + i) # [c + i + 1..c + j]" by (rule upto_rec1)
    have "map ((+) c) [i + 1..j] = [c + (i + 1)..c + j]" using 1 True by simp
    then show ?thesis unfolding a b by (simp add: add.assoc)
  next
    case False
    then show ?thesis by simp
  qed
qed

lemma col_index_row:
  "map (\<lambda>m. col_index d m) [- d..d] = [d ^ 2 - 1..(d + 1) ^ 2 - 2]"
proof -
  have "map (\<lambda>m. col_index d m) [- d..d] = map (\<lambda>m. (d ^ 2 + d - 1) + m) [- d..d]"
    by (simp add: col_index_def algebra_simps)
  also have "\<dots> = [(d ^ 2 + d - 1) + (- d)..(d ^ 2 + d - 1) + d]"
    by (rule map_add_upto_int)
  also have "\<dots> = [d ^ 2 - 1..(d + 1) ^ 2 - 2]"
    by (simp add: power2_eq_square algebra_simps)
  finally show ?thesis .
qed

lemma upto_append_next: "a \<le> b + 1 \<Longrightarrow> b \<le> c \<Longrightarrow> [a..b] @ [b + 1..c] = [a..(c::int)]"
proof (cases "a \<le> b")
  case True
  assume "b \<le> c"
  with True show ?thesis using upto_split2[of a b c] by simp
next
  case False
  assume "a \<le> b + 1"
  with False have "a = b + 1" by simp
  with False show ?thesis by simp
qed

lemma cols_of_pairs:
  "0 \<le> L \<Longrightarrow> map (\<lambda>(d, m). col_index d m) (deg_order_pairs L) = [0..basis_cols L - 1]"
proof (induction L rule: int_ge_induct)
  case base
  show ?case by (simp add: deg_order_pairs_def basis_cols_def)
next
  case (step L)
  have "1 \<le> L + 1" using step.hyps by simp
  then have "[1..L + 1] = [1..L + 1 - 1] @ [L + 1]" by (rule upto_rec2)
  then have split: "[1..L + 1] = [1..L] @ [L + 1]" by simp
  have "map (\<lambda>(d, m). col_index d m) (deg_order_pairs (L + 1))
        = map (\<lambda>(d, m). col_index d m) (deg_order_pairs L)
          @ map (\<lambda>m. col_index (L + 1) m) [- (L + 1)..L + 1]"
    by (simp add: deg_order_pairs_def split comp_def)
  also have "\<dots> = [0..basis_cols L - 1] @ [(L + 1) ^ 2 - 1..(L + 1 + 1) ^ 2 - 2]"
    using step.IH col_index_row[of "L + 1"] by simp
  also have "\<dots> = [0..basis_cols (L + 1) - 1]"
  proof -
    have a: "(L + 1) ^ 2 - 1 = (basis_cols L - 1) + 1" by (simp add: basis_cols_def)
    have b: "(L + 1 + 1) ^ 2 - 2 = basis_cols (L + 1) - 1" by (simp add: basis_cols_def)
    have c: "0 \<le> basis_cols L - 1 + 1" using step.hyps by (simp add: basis_cols_def)
    have d: "basis_cols L - 1 \<le> basis_cols (L + 1) - 1"
      using step.hyps by (simp add: basis_cols_def power2_eq_square algebra_simps)
    show ?thesis unfolding a b using upto_append_next[OF c d] by simp
  qed
  finally show ?case .
qed

subsection \<open>The assembly loops\<close>

lemma set_cell_in_range:
  assumes "pt_i < length spc" "0 \<le> col" "col < int (length (spc ! pt_i))"
  shows "set_cell spc pt_i col v = Inr (nat col, spc[pt_i := (spc ! pt_i)[nat col := v]])"
  using assms by (simp add: set_cell_def np_index_def)

lemma fill_rows_ok:
  assumes "length spc = n" "\<forall>row\<in>set spc. length row = ncols"
    and "0 \<le> col" "col < int ncols" "\<forall>i\<in>set pts. i < n"
  shows "\<exists>spc'. fill_rows ag il col pts (wl, spc) = (wl @ map (\<lambda>i. (i, nat col)) pts, Inr spc')
           \<and> length spc' = n \<and> (\<forall>row\<in>set spc'. length row = ncols)"
  using assms
proof (induction pts arbitrary: wl spc)
  case Nil
  then show ?case by simp
next
  case (Cons i pts)
  let ?v = "np_sum (py_slice ag (il ! i) (il ! (i + 1)))"
  let ?spc = "spc[i := (spc ! i)[nat col := ?v]]"
  have i: "i < length spc" using Cons.prems by simp
  then have "length (spc ! i) = ncols" using Cons.prems by simp
  then have sc: "set_cell spc i col ?v = Inr (nat col, ?spc)"
    using i Cons.prems by (intro set_cell_in_range) simp_all
  have len: "length ?spc = n" using Cons.prems by simp
  have rows: "\<forall>row\<in>set ?spc. length row = ncols"
  proof
    fix row assume "row \<in> set ?spc"
    then have "row \<in> insert ((spc ! i)[nat col := ?v]) (set spc)"
      using set_update_subset_insert by fast
    then show "length row = ncols" using Cons.prems i by auto
  qed
  have "\<forall>i\<in>set pts. i < n" using Cons.prems by simp
  from Cons.IH[OF len rows Cons.prems(3) Cons.prems(4) this, of "wl @ [(i, nat col)]"]
  obtain spc' where "fill_rows ag il col pts (wl @ [(i, nat col)], ?spc)
      = ((wl @ [(i, nat col)]) @ map (\<lambda>i. (i, nat col)) pts, Inr spc')"
    and "length spc' = n" "\<forall>row\<in>set spc'. length row = ncols" by blast
  then show ?case using sc by (simp add: Let_def)
qed

lemma fill_pairs_ok:
  assumes "length spc = n" "\<forall>row\<in>set spc. length row = ncols"
    and "length il - 1 = n"
    and "\<forall>(d, m)\<in>set pairs. 0 \<le> col_index d m \<and> col_index d m < int ncols
            \<and> (\<exists>gr. g d m sp = Inr gr)"
  shows "\<exists>spc'. fill_pairs g sp nc wc il pairs (wl, spc)
             = (wl @ concat (map (\<lambda>(d, m). map (\<lambda>i. (i, nat (col_index d m))) [0..<n]) pairs),
                Inr spc')
           \<and> length spc' = n \<and> (\<forall>row\<in>set spc'. length row = ncols)"
  using assms
proof (induction pairs arbitrary: wl spc)
  case Nil
  then show ?case by simp
next
  case (Cons p pairs)
  obtain d m where p: "p = (d, m)" by (cases p)
  from Cons.prems(4) p obtain gr where gr: "g d m sp = Inr gr"
    and c0: "0 \<le> col_index d m" and c1: "col_index d m < int ncols" by auto
  let ?grads = "map (\<lambda>(g0, g1, g2). (map_option ((*) (- 1)) g0, map_option ((*) (- 1)) g1,
                                        map_option ((*) (- 1)) g2)) gr"
  let ?ag = "weighted_dots ?grads nc wc"
  have "\<forall>i\<in>set [0..<n]. i < n" by simp
  from fill_rows_ok[OF Cons.prems(1) Cons.prems(2) c0 c1 this, of ?ag il wl]
  obtain spc1 where f1: "fill_rows ?ag il (col_index d m) [0..<n] (wl, spc)
        = (wl @ map (\<lambda>i. (i, nat (col_index d m))) [0..<n], Inr spc1)"
    and l1: "length spc1 = n" and r1: "\<forall>row\<in>set spc1. length row = ncols" by blast
  have rest: "\<forall>(d, m)\<in>set pairs. 0 \<le> col_index d m \<and> col_index d m < int ncols
            \<and> (\<exists>gr. g d m sp = Inr gr)" using Cons.prems(4) by simp
  from Cons.IH[OF l1 r1 Cons.prems(3) rest, of "wl @ map (\<lambda>i. (i, nat (col_index d m))) [0..<n]"]
  obtain spc' where f2: "fill_pairs g sp nc wc il pairs
         (wl @ map (\<lambda>i. (i, nat (col_index d m))) [0..<n], spc1)
       = ((wl @ map (\<lambda>i. (i, nat (col_index d m))) [0..<n])
            @ concat (map (\<lambda>(d, m). map (\<lambda>i. (i, nat (col_index d m))) [0..<n]) pairs), Inr spc')"
    and l2: "length spc' = n" and r2: "\<forall>row\<in>set spc'. length row = ncols" by blast
  show ?case using p gr f1 f2 l2 r2 Cons.prems(3) by (simp add: Let_def)
qed

subsection \<open>Angles of the spherical coordinates\<close>

lemma arctan2_bounds: "- pi \<le> arctan2 y x \<and> arctan2 y x \<le> pi"
proof -
  have b: "- (pi / 2) < arctan (y / x)" "arctan (y / x) < pi / 2"
    using arctan_bounded[of "y / x"] by simp_all
  consider "0 < x" | "x < 0" "0 \<le> y" | "x < 0" "y < 0" | "x = 0"
    by linarith
  then show ?thesis
  proof cases
    case 1
    then show ?thesis using b pi_gt_zero by (simp add: arctan2_def)
  next
    case 2
    then have "y / x \<le> 0" by (simp add: divide_nonneg_neg)
    then have "arctan (y / x) \<le> 0" using arctan_monotone'[of "y / x" 0] by simp
    then show ?thesis using 2 b pi_gt_zero by (simp add: arctan2_def)
  next
    case 3
    then have "0 < y / x" by (simp add: divide_neg_neg)
    then have "0 < arctan (y / x)" using arctan_monotone[of 0 "y / x"] by simp
    then show ?thesis using 3 b pi_gt_zero by (simp add: arctan2_def)
  next
    case 4
    have "arctan2 y x = (if 0 < y then pi / 2 else if y < 0 then - (pi / 2) else 0)"
      using 4 by (simp add: arctan2_def)
    moreover have "- pi \<le> pi / 2 \<and> pi / 2 \<le> pi" using pi_gt_zero by linarith
    moreover have "- pi \<le> - (pi / 2) \<and> - (pi / 2) \<le> pi" using pi_gt_zero by linarith
    moreover have "- pi \<le> 0 \<and> 0 \<le> pi" using pi_gt_zero by linarith
    ultimately show ?thesis by presburger
  qed
qed

lemma abs_le_norm3: "\<bar>z\<bar> \<le> sqrt (x * x + y * y + z * z)"
proof -
  have "z * z \<le> x * x + y * y + z * z" by simp
  then have "sqrt (z * z) \<le> sqrt (x * x + y * y + z * z)" by (rule real_sqrt_le_mono)
  then show ?thesis by simp
qed

lemma cart_to_sph_pt_pol:
  assumes "cart_to_sph_pt p = (rad, az, Some q)"
  shows "0 \<le> q \<and> q \<le> pi"
proof -
  obtain x y z where p: "p = (x, y, z)" by (cases p)
  let ?r = "sqrt (x * x + y * y + z * z)"
  from assms p have r: "?r \<noteq> 0" and q: "q = arccos (z / ?r)"
    by (auto simp: cart_to_sph_pt_def vnorm_def np_div_def Let_def split: if_splits)
  have "0 \<le> ?r" by simp
  with r have pos: "0 < ?r" by linarith
  have "\<bar>z\<bar> \<le> ?r" by (rule abs_le_norm3)
  then have "\<bar>z / ?r\<bar> \<le> 1" using pos by simp
  then have "- 1 \<le> z / ?r" "z / ?r \<le> 1" by linarith+
  then show ?thesis unfolding q by (simp add: arccos_lbound arccos_ubound)
qed

lemma cart_to_sph_pt_az:
  assumes "cart_to_sph_pt p = (rad, az, pol)"
  shows "- pi \<le> az \<and> az \<le> pi"
proof -
  obtain x y z where p: "p = (x, y, z)" by (cases p)
  from assms p have "az = arctan2 y x" by (auto simp: cart_to_sph_pt_def Let_def)
  then show ?thesis using arctan2_bounds by simp
qed

lemma sph_harmonic_ok:
  assumes "\<bar>order\<bar> \<le> degree"
  shows "\<exists>ys. sph_harmonic lpmv degree order (map snd (map cart_to_sph_pt ps)) = Inr ys"
proof -
  let ?angles = "map snd (map cart_to_sph_pt ps)"
  have azb: "- 2 * pi \<le> az \<and> az \<le> 2 * pi" if "(az, pol) \<in> set ?angles" for az pol
  proof -
    from that obtain p where "snd (cart_to_sph_pt p) = (az, pol)" by auto
    then have "cart_to_sph_pt p = (fst (cart_to_sph_pt p), az, pol)"
      by (cases "cart_to_sph_pt p") simp
    then obtain rad where "cart_to_sph_pt p = (rad, az, pol)" by blast
    from cart_to_sph_pt_az[OF this] show ?thesis using pi_gt_zero by simp
  qed
  have az: "\<not> list_ex (\<lambda>(az, pol). az < - 2 * pi) ?angles"
       "\<not> list_ex (\<lambda>(az, pol). az > 2 * pi) ?angles"
    using azb unfolding list_ex_iff by fastforce+
  have polb: "0 \<le> q \<and> q \<le> pi" if "(az, Some q) \<in> set ?angles" for az q
  proof -
    from that obtain p where "snd (cart_to_sph_pt p) = (az, Some q)" by auto
    then have "cart_to_sph_pt p = (fst (cart_to_sph_pt p), az, Some q)"
      by (cases "cart_to_sph_pt p") simp
    then obtain rad where "cart_to_sph_pt p = (rad, az, Some q)" by blast
    from cart_to_sph_pt_pol[OF this] show ?thesis .
  qed
  have pol: "\<not> list_ex (\<lambda>(az, pol). case pol of None \<Rightarrow> False | Some p \<Rightarrow> p < 0) ?angles"
       "\<not> list_ex (\<lambda>(az, pol). case pol of None \<Rightarrow> False | Some p \<Rightarrow> p > pi) ?angles"
    using polb unfolding list_ex_iff by (fastforce split: option.splits)+
  show ?thesis using assms az pol by (simp add: sph_harmonic_def)
qed

lemma grad_in_components_ok:
  assumes "\<bar>order\<bar> \<le> degree"
  shows "\<exists>gr. grad_in_components lpmv degree order (map cart_to_sph_pt ps) = Inr gr"
  using sph_harmonic_ok[OF assms, of lpmv ps] by (auto simp: grad_in_components_def)

lemma grad_out_components_ok:
  assumes "\<bar>order\<bar> \<le> degree"
  shows "\<exists>gr. grad_out_components lpmv degree order (map cart_to_sph_pt ps) = Inr gr"
  using sph_harmonic_ok[OF assms, of lpmv ps] by (auto simp: grad_out_components_def)

subsection \<open>The basis matrices\<close>

lemma deg_order_pairs_mem:
  "(d, m) \<in> set (deg_order_pairs L) \<longleftrightarrow> 1 \<le> d \<and> d \<le> L \<and> - d \<le> m \<and> m \<le> d"
  by (auto simp: deg_order_pairs_def image_iff)

lemma col_index_in_range:
  assumes "0 \<le> L" "(d, m) \<in> set (deg_order_pairs L)"
  shows "0 \<le> col_index d m \<and> col_index d m < basis_cols L"
proof -
  have "col_index d m \<in> set (map (\<lambda>(d, m). col_index d m) (deg_order_pairs L))"
    using assms(2) by force
  then have "col_index d m \<in> set [0..basis_cols L - 1]"
    using cols_of_pairs[OF assms(1)] by simp
  then show ?thesis by simp
qed

lemma basis_cols_nonneg: "0 \<le> L \<Longrightarrow> 0 \<le> basis_cols L"
  by (simp add: basis_cols_def power2_eq_square algebra_simps)

lemma length_cumsum_from: "length (cumsum_from acc ns) = length ns"
  by (induction ns arbitrary: acc) simp_all

lemma length_int_lens_of: "length (int_lens_of ns) = Suc (length ns)"
  by (simp add: int_lens_of_def length_cumsum_from)

lemma scale_rows_shape:
  assumes "length cs = length spc" "\<forall>row\<in>set spc. length row = ncols"
  shows "length (scale_rows cs spc) = length spc
         \<and> (\<forall>row\<in>set (scale_rows cs spc). length row = ncols)"
  using assms by (auto simp: scale_rows_def dest!: set_zip_rightD)

lemma normalize_cols_shape:
  assumes "\<forall>row\<in>set spc. length row = ncols"
  shows "length (normalize_cols ncols spc) = length spc
         \<and> (\<forall>row\<in>set (normalize_cols ncols spc). length row = ncols)"
  using assms by (auto simp: normalize_cols_def)


lemma sss_side_ok:
  assumes "0 \<le> L" "length il - 1 = n" "length cs = n"
    and "\<forall>(d, m)\<in>set (deg_order_pairs L). \<exists>gr. g d m sp = Inr gr"
  shows "\<exists>S. sss_side g L sp nc wc il cs n = (cells n L, Inr S)
           \<and> length S = n \<and> (\<forall>row\<in>set S. length row = nat (basis_cols L))"
proof -
  let ?ncols = "nat (basis_cols L)"
  let ?spc0 = "replicate n (replicate ?ncols (None :: npfloat))"
  have s0: "length ?spc0 = n" "\<forall>row\<in>set ?spc0. length row = ?ncols" by simp_all
  have pairs: "\<forall>(d, m)\<in>set (deg_order_pairs L). 0 \<le> col_index d m
        \<and> col_index d m < int ?ncols \<and> (\<exists>gr. g d m sp = Inr gr)"
    using assms(4) col_index_in_range[OF assms(1)] basis_cols_nonneg[OF assms(1)] by fastforce
  from fill_pairs_ok[where spc = ?spc0 and n = n and ncols = ?ncols and il = il
      and pairs = "deg_order_pairs L" and g = g and sp = sp and nc = nc and wc = wc
      and wl = "[]", OF s0 assms(2) pairs]
  obtain spc where f: "fill_pairs g sp nc wc il (deg_order_pairs L) ([], ?spc0)
        = (cells n L, Inr spc)" and l: "length spc = n"
    and r: "\<forall>row\<in>set spc. length row = ?ncols"
    by (auto simp: cells_def)
  have sc: "length (scale_rows cs spc) = n"
       "\<forall>row\<in>set (scale_rows cs spc). length row = ?ncols"
    using scale_rows_shape[of cs spc ?ncols] assms(3) l r by simp_all
  have "length (normalize_cols ?ncols (scale_rows cs spc)) = n
       \<and> (\<forall>row\<in>set (normalize_cols ?ncols (scale_rows cs spc)). length row = ?ncols)"
    using normalize_cols_shape[OF sc(2)] sc(1) by simp
  then show ?thesis using f by (simp add: sss_side_def fill_side_def Let_def)
qed

lemma sss_basis_ok:
  assumes "0 \<le> io" "0 \<le> eo" "get_num_moments io eo \<le> int (length coils)"
  shows "\<exists>S_in S_out. sss_basis lpmv origin coils io eo
            = (map (Pair Internal) (cells (length coils) io)
                 @ map (Pair External) (cells (length coils) eo), Inr (S_in, S_out))
          \<and> length S_in = length coils
          \<and> (\<forall>row\<in>set S_in. length row = nat (basis_cols io))
          \<and> length S_out = length coils
          \<and> (\<forall>row\<in>set S_out. length row = nat (basis_cols eo))"
proof -
  let ?n = "length coils"
  let ?r = "concat (map (\<lambda>c. map fst (int_points c)) coils)"
  let ?nc = "concat (map (\<lambda>c. map (\<lambda>p. fst (snd p)) (int_points c)) coils)"
  let ?wc = "concat (map (\<lambda>c. map (\<lambda>p. snd (snd p)) (int_points c)) coils)"
  let ?ip = "map (\<lambda>c. length (int_points c)) coils"
  let ?il = "int_lens_of ?ip"
  let ?cs = "coil_scale_of coils"
  let ?sp = "map cart_to_sph_pt (map (\<lambda>p. vsub p origin) ?r)"
  have il: "length ?il - 1 = ?n" by (simp add: length_int_lens_of)
  have cs: "length ?cs = ?n" by (simp add: coil_scale_of_def)
  have gin: "\<forall>(d, m)\<in>set (deg_order_pairs io). \<exists>gr. grad_in_components lpmv d m ?sp = Inr gr"
  proof (clarify)
    fix d m assume "(d, m) \<in> set (deg_order_pairs io)"
    then have "\<bar>m\<bar> \<le> d" unfolding deg_order_pairs_mem by linarith
    from grad_in_components_ok[OF this]
    show "\<exists>gr. grad_in_components lpmv d m ?sp = Inr gr" by blast
  qed
  have gout: "\<forall>(d, m)\<in>set (deg_order_pairs eo). \<exists>gr. grad_out_components lpmv d m ?sp = Inr gr"
  proof (clarify)
    fix d m assume "(d, m) \<in> set (deg_order_pairs eo)"
    then have "\<bar>m\<bar> \<le> d" unfolding deg_order_pairs_mem by linarith
    from grad_out_components_ok[OF this]
    show "\<exists>gr. grad_out_components lpmv d m ?sp = Inr gr" by blast
  qed
  from sss_side_ok[where L = io and il = ?il and n = ?n and cs = ?cs
      and g = "grad_in_components lpmv" and sp = ?sp and nc = ?nc and wc = ?wc,
      OF assms(1) il cs gin]
  obtain S_in where a: "sss_side (grad_in_components lpmv) io ?sp ?nc ?wc ?il ?cs ?n
        = (cells ?n io, Inr S_in)" and la: "length S_in = ?n"
    and ra: "\<forall>row\<in>set S_in. length row = nat (basis_cols io)" by blast
  from sss_side_ok[where L = eo and il = ?il and n = ?n and cs = ?cs
      and g = "grad_out_components lpmv" and sp = ?sp and nc = ?nc and wc = ?wc,
      OF assms(2) il cs gout]
  obtain S_out where b: "sss_side (grad_out_components lpmv) eo ?sp ?nc ?wc ?il ?cs ?n
        = (cells ?n eo, Inr S_out)" and lb: "length S_out = ?n"
    and rb: "\<forall>row\<in>set S_out. length row = nat (basis_cols eo)" by blast
  have nn: "\<not> basis_cols io < 0" "\<not> basis_cols eo < 0"
    using basis_cols_nonneg assms by (simp_all add: not_less)
  have "sss_basis lpmv origin coils io eo
        = (map (Pair Internal) (cells ?n io) @ map (Pair External) (cells ?n eo),
           Inr (S_in, S_out))"
    using a b nn assms(3)
    by (simp add: sss_basis_def sss_basis_with_def concatenate_coils_def cart_to_sph_def Let_def)
  then show ?thesis using la ra lb rb by blast
qed

lemma sss_basis_too_many:
  assumes "0 \<le> io" "0 \<le> eo" "get_num_moments io eo > int (length coils)"
  shows "sss_basis lpmv origin coils io eo
         = ([], Inl (TooManyBases (get_num_moments io eo) (length coils)))"
proof -
  have nn: "\<not> basis_cols io < 0" "\<not> basis_cols eo < 0"
    using basis_cols_nonneg assms by (simp_all add: not_less)
  show ?thesis using nn assms(3)
    by (simp add: sss_basis_def sss_basis_with_def concatenate_coils_def Let_def)
qed

lemma distinct_cells_aux:
  assumes "distinct cs"
  shows "distinct (concat (map (\<lambda>c. map (\<lambda>i. (i, c)) [0..<n]) cs))
         \<and> set (concat (map (\<lambda>c. map (\<lambda>i. (i, c)) [0..<n]) cs)) = {0..<n} \<times> set cs"
  using assms by (induction cs) (auto simp: distinct_map inj_on_def)

lemma cells_eq:
  "cells n L = concat (map (\<lambda>c. map (\<lambda>i. (i, c)) [0..<n])
                 (map nat (map (\<lambda>(d, m). col_index d m) (deg_order_pairs L))))"
  by (simp add: cells_def comp_def case_prod_unfold)

lemma cells_distinct_set:
  assumes "0 \<le> L"
  shows "distinct (cells n L) \<and> set (cells n L) = {0..<n} \<times> {0..<nat (basis_cols L)}"
proof -
  have d: "distinct (map nat [0..basis_cols L - 1])"
    by (auto simp: distinct_map inj_on_def)
  have s: "set (map nat [0..basis_cols L - 1]) = {0..<nat (basis_cols L)}"
  proof (rule set_eqI)
    fix k show "k \<in> set (map nat [0..basis_cols L - 1]) \<longleftrightarrow> k \<in> {0..<nat (basis_cols L)}"
    proof
      assume "k \<in> set (map nat [0..basis_cols L - 1])"
      then show "k \<in> {0..<nat (basis_cols L)}" by auto
    next
      assume "k \<in> {0..<nat (basis_cols L)}"
      then have "int k \<in> set [0..basis_cols L - 1]" by auto
      then have "nat (int k) \<in> nat ` set [0..basis_cols L - 1]" by (rule imageI)
      then show "k \<in> set (map nat [0..basis_cols L - 1])" by simp
    qed
  qed
  show ?thesis
    unfolding cells_eq cols_of_pairs[OF assms] using distinct_cells_aux[OF d, of n] s by simp
qed

lemma sss_basis_success_iff:
  assumes "0 \<le> io" "0 \<le> eo"
    and "sss_basis lpmv origin coils io eo = (wl, Inr (S_in, S_out))"
  shows "wl = map (Pair Internal) (cells (length coils) io)
                @ map (Pair External) (cells (length coils) eo)
         \<and> length S_in = length coils
         \<and> (\<forall>row\<in>set S_in. length row = nat (basis_cols io))
         \<and> length S_out = length coils
         \<and> (\<forall>row\<in>set S_out. length row = nat (basis_cols eo))"
proof -
  have "\<not> get_num_moments io eo > int (length coils)"
  proof
    assume "get_num_moments io eo > int (length coils)"
    from sss_basis_too_many[OF assms(1,2) this, of lpmv origin] assms(3) show False by simp
  qed
  then have "get_num_moments io eo \<le> int (length coils)" by simp
  from sss_basis_ok[OF assms(1,2) this, of lpmv origin] assms(3) show ?thesis by auto
qed

lemma pairs_set: "set (deg_order_pairs L) = {(d, m). 1 \<le> d \<and> d \<le> L \<and> - d \<le> m \<and> m \<le> d}"
  using deg_order_pairs_mem by auto

lemma col_index_bij:
  assumes "0 \<le> L"
  shows "bij_betw (\<lambda>(d, m). col_index d m)
           {(d, m). 1 \<le> d \<and> d \<le> L \<and> - d \<le> m \<and> m \<le> d} {0..(L + 1) ^ 2 - 2}"
proof -
  let ?f = "\<lambda>(d, m). col_index d m"
  have m: "map ?f (deg_order_pairs L) = [0..(L + 1) ^ 2 - 2]"
    using cols_of_pairs[OF assms] by (simp add: basis_cols_def)
  have "distinct (map ?f (deg_order_pairs L))" unfolding m by simp
  then have inj: "inj_on ?f (set (deg_order_pairs L))" by (simp add: distinct_map)
  have "?f ` set (deg_order_pairs L) = set (map ?f (deg_order_pairs L))" by simp
  also have "\<dots> = {0..(L + 1) ^ 2 - 2}" unfolding m by simp
  finally have img: "?f ` set (deg_order_pairs L) = {0..(L + 1) ^ 2 - 2}" .
  show ?thesis using inj img unfolding bij_betw_def pairs_set by simp
qed

lemma tagged_log:
  assumes "distinct a" "distinct b"
  shows "distinct (map (Pair Internal) a @ map (Pair External) b)
         \<and> set (map (Pair Internal) a @ map (Pair External) b)
             = {Internal} \<times> set a \<union> {External} \<times> set b"
  using assms by (auto simp: distinct_map inj_on_def)

lemma demo_basis_ok:
  "\<exists>S_in S_out. sss_basis lpmv_ref (0, 0, 0) demo_coils 1 0
       = (map (Pair Internal) (cells 3 1) @ map (Pair External) (cells 3 0), Inr (S_in, S_out))
     \<and> length S_in = 3 \<and> length S_out = 3"
proof -
  have n: "length demo_coils = 3" by (simp add: demo_coils_def)
  have "get_num_moments 1 0 \<le> int (length demo_coils)"
    by (simp add: get_num_moments_def n)
  from sss_basis_ok[OF _ _ this, of lpmv_ref "(0, 0, 0)"] show ?thesis unfolding n by auto
qed

text \<open>
  Claim C3. For every pair of non-negative expansion orders, the internal basis matrix
  that \<open>_sss_basis\<close> returns has exactly \<open>(int_order + 1)\<^sup>2 - 1\<close> columns, the external one
  has exactly \<open>(ext_order + 1)\<^sup>2 - 1\<close> columns, and the number of moments that
  \<open>get_num_moments\<close> computes is the sum of the two column counts.
\<close>

theorem basis_column_counts:
  assumes "0 \<le> int_order" "0 \<le> ext_order"
  shows "get_num_moments int_order ext_order
           = ((int_order + 1) ^ 2 - 1) + ((ext_order + 1) ^ 2 - 1)
         \<and> (\<forall>wl S_in S_out.
               sss_basis lpmv origin coils int_order ext_order = (wl, Inr (S_in, S_out)) \<longrightarrow>
               (\<forall>row\<in>set S_in. int (length row) = (int_order + 1) ^ 2 - 1)
               \<and> (\<forall>row\<in>set S_out. int (length row) = (ext_order + 1) ^ 2 - 1))"
proof (intro conjI allI impI)
  show "get_num_moments int_order ext_order
           = ((int_order + 1) ^ 2 - 1) + ((ext_order + 1) ^ 2 - 1)"
    using get_num_moments_sum[of int_order ext_order] by (simp add: basis_cols_def)
next
  fix wl S_in S_out
  assume ok: "sss_basis lpmv origin coils int_order ext_order = (wl, Inr (S_in, S_out))"
  note sh = sss_basis_success_iff[OF assms ok]
  have a: "int (nat (basis_cols int_order)) = (int_order + 1) ^ 2 - 1"
    using basis_cols_nonneg[OF assms(1)] by (simp add: basis_cols_def)
  have b: "int (nat (basis_cols ext_order)) = (ext_order + 1) ^ 2 - 1"
    using basis_cols_nonneg[OF assms(2)] by (simp add: basis_cols_def)
  show "\<forall>row\<in>set S_in. int (length row) = (int_order + 1) ^ 2 - 1" using sh a by auto
  show "\<forall>row\<in>set S_out. int (length row) = (ext_order + 1) ^ 2 - 1" using sh b by auto
qed

theorem basis_column_counts_witness:
  "(0::int) \<le> 1 \<and> (0::int) \<le> 0
   \<and> get_num_moments 1 0 = ((1 + 1) ^ 2 - 1) + ((0 + 1) ^ 2 - 1)
   \<and> (\<exists>wl S_in S_out.
         sss_basis lpmv_ref (0, 0, 0) demo_coils 1 0 = (wl, Inr (S_in, S_out))
         \<and> length S_in = 3 \<and> length S_out = 3
         \<and> (\<forall>row\<in>set S_in. int (length row) = (1 + 1) ^ 2 - 1)
         \<and> (\<forall>row\<in>set S_out. int (length row) = (0 + 1) ^ 2 - 1))"
proof -
  have h: "(0::int) \<le> 1" "(0::int) \<le> 0" by simp_all
  from demo_basis_ok obtain wl S_in S_out where
    ok: "sss_basis lpmv_ref (0, 0, 0) demo_coils 1 0 = (wl, Inr (S_in, S_out))"
    and l: "length S_in = 3" "length S_out = 3" by blast
  from basis_column_counts[OF h, of lpmv_ref "(0, 0, 0)" demo_coils] ok l
  show ?thesis using h by blast
qed

text \<open>
  Claim C4. For non-negative orders and at least one sensor, \<open>_sss_basis\<close> ends with an
  error exactly when the number of requested bases exceeds the number of sensors; the
  error is then the ValueError of line 140, and no cell of a basis matrix has been written
  (the log of writes is empty). No other error arises: the angles that \<open>_cart_to_sph\<close>
  returns pass the range checks of \<open>_sph_harmonic\<close>, and every column index is in range.
\<close>

theorem sss_basis_rejects_iff:
  assumes "0 \<le> int_order" "0 \<le> ext_order" "coils \<noteq> []"
  shows "(isl (snd (sss_basis lpmv origin coils int_order ext_order))
            \<longleftrightarrow> get_num_moments int_order ext_order > int (length coils))
         \<and> (get_num_moments int_order ext_order > int (length coils) \<longrightarrow>
              sss_basis lpmv origin coils int_order ext_order
                = ([], Inl (TooManyBases (get_num_moments int_order ext_order) (length coils))))"
proof -
  have r: "sss_basis lpmv origin coils int_order ext_order
                = ([], Inl (TooManyBases (get_num_moments int_order ext_order) (length coils)))"
    if "get_num_moments int_order ext_order > int (length coils)"
    using sss_basis_too_many[OF assms(1,2) that] .
  have s: "\<not> isl (snd (sss_basis lpmv origin coils int_order ext_order))"
    if "\<not> get_num_moments int_order ext_order > int (length coils)"
  proof -
    from that have "get_num_moments int_order ext_order \<le> int (length coils)" by simp
    from sss_basis_ok[OF assms(1,2) this, of lpmv origin] show ?thesis by auto
  qed
  show ?thesis using r s by auto
qed

theorem sss_basis_rejects_iff_witness:
  "(0::int) \<le> 1 \<and> demo_coils \<noteq> []
   \<and> \<not> get_num_moments 1 0 > int (length demo_coils)
   \<and> \<not> isl (snd (sss_basis lpmv_ref (0, 0, 0) demo_coils 1 0))
   \<and> get_num_moments 1 1 > int (length demo_coils)
   \<and> isl (snd (sss_basis lpmv_ref (0, 0, 0) demo_coils 1 1))
   \<and> sss_basis lpmv_ref (0, 0, 0) demo_coils 1 1 = ([], Inl (TooManyBases 6 3))"
proof -
  have h: "(0::int) \<le> 1" "(0::int) \<le> 0" "demo_coils \<noteq> []" by (simp_all add: demo_coils_def)
  have n: "length demo_coils = 3" by (simp add: demo_coils_def)
  have a: "\<not> get_num_moments 1 0 > int (length demo_coils)"
    by (simp add: get_num_moments_def n)
  have b: "get_num_moments 1 1 > int (length demo_coils)"
    by (simp add: get_num_moments_def n)
  have g: "get_num_moments 1 1 = 6" by (simp add: get_num_moments_def)
  from sss_basis_rejects_iff[OF h(1) h(2) h(3), of lpmv_ref "(0, 0, 0)"] a
  have 1: "\<not> isl (snd (sss_basis lpmv_ref (0, 0, 0) demo_coils 1 0))" by blast
  from sss_basis_rejects_iff[OF h(1) h(1) h(3), of lpmv_ref "(0, 0, 0)"] b
  have 2: "isl (snd (sss_basis lpmv_ref (0, 0, 0) demo_coils 1 1))"
    and 3: "sss_basis lpmv_ref (0, 0, 0) demo_coils 1 1
            = ([], Inl (TooManyBases (get_num_moments 1 1) (length demo_coils)))" by blast+
  show ?thesis using h a b 1 2 3 unfolding g n by blast
qed

subsection \<open>Bad channels\<close>

text \<open>
  Claim C5. For every input record with at least one channel flagged as bad, the call
  fails with the bad-channels error before anything is computed: no stage of the call is
  entered (no coil construction, no basis assembly, no projection, no output) and the
  container is left as it was.
\<close>

theorem maxwell_filter_bad_channels:
  assumes "bads r \<noteq> []"
  shows "maxwell_filter lpmv pinv geom r origin int_order ext_order = ([], r, Inl BadChannels)"
  using assms by (simp add: maxwell_filter_def)

theorem maxwell_filter_bad_channels_witness:
  "bads \<lparr>chs = [\<lparr>ch_name = ''MEG0111'', is_meg = True\<rparr>], bads = [''MEG0111''],
         maxshield = None, proc_history = None, raw_data = [[1, 2]], n_times = 2\<rparr> \<noteq> []
   \<and> maxwell_filter (\<lambda>m l x. x) (\<lambda>M c. M) (\<lambda>ch. (1, []))
        \<lparr>chs = [\<lparr>ch_name = ''MEG0111'', is_meg = True\<rparr>], bads = [''MEG0111''],
         maxshield = None, proc_history = None, raw_data = [[1, 2]], n_times = 2\<rparr>
        (0, 0, 40) 8 3
     = ([], \<lparr>chs = [\<lparr>ch_name = ''MEG0111'', is_meg = True\<rparr>], bads = [''MEG0111''],
              maxshield = None, proc_history = None, raw_data = [[1, 2]], n_times = 2\<rparr>,
        Inl BadChannels)"
proof -
  have h: "bads \<lparr>chs = [\<lparr>ch_name = ''MEG0111'', is_meg = True\<rparr>], bads = [''MEG0111''],
         maxshield = None, proc_history = None, raw_data = [[1, 2]], n_times = 2\<rparr> \<noteq> []"
    by simp
  show ?thesis using h maxwell_filter_bad_channels[OF h] by blast
qed

subsection \<open>Points of zero radius\<close>

lemma cart_to_sph_pt_pol_nan:
  assumes "fst (cart_to_sph_pt p) = 0"
  shows "snd (snd (cart_to_sph_pt p)) = None"
  using assms by (cases p) (simp add: cart_to_sph_pt_def np_div_def Let_def)

text \<open>
  Claim C7 says that \<open>_cart_to_sph\<close> fails on every input with a point of zero radius.
  The source has no check of the radius: at the origin it returns the radius 0 and, from
  the division by that radius, the polar angle NaN.
\<close>

theorem cart_to_sph_counterexample:
  "vnorm (0, 0, 0) = 0 \<and> \<not> isl (cart_to_sph [(0, 0, 0)])
   \<and> map fst (projr (cart_to_sph [(0, 0, 0)])) = [0]
   \<and> map (snd \<circ> snd) (projr (cart_to_sph [(0, 0, 0)])) = [None]"
  by (simp add: cart_to_sph_def cart_to_sph_pt_def vnorm_def np_div_def)

text \<open>
  Claim C7, amended. \<open>_cart_to_sph\<close> fails on no input: it returns one triple for every
  point, and where the radius it returns is zero, the polar angle it returns is NaN.
\<close>

theorem cart_to_sph_total:
  "\<exists>out. cart_to_sph pts = Inr out \<and> length out = length pts
     \<and> (\<forall>i<length pts. fst (out ! i) = 0 \<longrightarrow> snd (snd (out ! i)) = None)"
  using cart_to_sph_pt_pol_nan by (simp add: cart_to_sph_def)

theorem cart_to_sph_total_witness:
  "\<exists>out. cart_to_sph [(0, 0, 0), (0, 0, 2)] = Inr out \<and> length out = 2
         \<and> fst (out ! 0) = 0 \<and> snd (snd (out ! 0)) = None \<and> fst (out ! 1) = 2"
proof -
  from cart_to_sph_total[of "[(0, 0, 0), (0, 0, 2)]"]
  obtain out where o: "cart_to_sph [(0, 0, 0), (0, 0, 2)] = Inr out" "length out = 2"
    and a: "\<forall>i<2. fst (out ! i) = 0 \<longrightarrow> snd (snd (out ! i)) = None"
    by auto
  from o(1) have out: "out = map cart_to_sph_pt [(0, 0, 0), (0, 0, 2)]"
    by (simp add: cart_to_sph_def)
  have r0: "fst (out ! 0) = 0" and r1: "fst (out ! 1) = 2"
    unfolding out by (simp_all add: cart_to_sph_pt_def vnorm_def Let_def)
  have i0: "(0::nat) < 2" by simp
  from a[rule_format, OF i0 r0] have "snd (snd (out ! 0)) = None" .
  with o r0 r1 show ?thesis by blast
qed

subsection \<open>Channel selection\<close>

lemma index_of_nth:
  assumes "distinct xs" "i < length xs"
  shows "index_of xs (xs ! i) = Inr i"
  using assms
proof (induction xs arbitrary: i)
  case Nil
  then show ?case by simp
next
  case (Cons x xs)
  show ?case
  proof (cases i)
    case 0
    then show ?thesis by simp
  next
    case (Suc j)
    with Cons.prems have j: "j < length xs" and "distinct xs" and "x \<notin> set xs" by simp_all
    then have "xs ! j \<noteq> x" using nth_mem by fastforce
    then have "x \<noteq> xs ! j" by blast
    with Cons.IH[OF \<open>distinct xs\<close> j] Suc show ?thesis by simp
  qed
qed

lemma collect_map:
  assumes "\<forall>x\<in>set xs. f x = Inr (h x)"
  shows "collect f xs = Inr (map h xs)"
  using assms by (induction xs) simp_all

lemma collect_Inr:
  assumes "collect f xs = Inr ys"
  shows "length ys = length xs \<and> (\<forall>i<length xs. f (xs ! i) = Inr (ys ! i))"
  using assms
proof (induction xs arbitrary: ys)
  case Nil
  then show ?case by simp
next
  case (Cons x xs)
  from Cons.prems obtain y ys' where y: "f x = Inr y" and c: "collect f xs = Inr ys'"
    and ys: "ys = y # ys'"
    by (auto split: sum.splits)
  from Cons.IH[OF c] have l: "length ys' = length xs"
    and n: "\<forall>i<length xs. f (xs ! i) = Inr (ys' ! i)" by simp_all
  show ?case unfolding ys using l n y by (auto simp: nth_Cons split: nat.splits)
qed

lemma sorted_bounded_upt:
  assumes "sorted xs" "distinct xs" "\<forall>x\<in>set xs. x < length xs"
  shows "xs = [0..<length xs]"
proof -
  have sub: "set xs \<subseteq> {0..<length xs}" using assms(3) by auto
  have "card (set xs) = length xs" using assms(2) by (simp add: distinct_card)
  then have "card (set xs) = card {0..<length xs}" by simp
  with sub have "set xs = {0..<length xs}" by (simp add: card_subset_eq)
  then have "set xs = set [0..<length xs]" by simp
  moreover have "sorted [0..<length xs]" "distinct [0..<length xs]" by simp_all
  ultimately show ?thesis using assms(1,2) sorted_distinct_set_unique by blast
qed

lemma filter_take_distinct:
  assumes "distinct (map f xs)"
  shows "filter (\<lambda>x. f x \<in> f ` set (take n xs)) xs = take n xs"
  using assms
proof (induction xs arbitrary: n)
  case Nil
  then show ?case by simp
next
  case (Cons x xs)
  show ?case
  proof (cases n)
    case 0
    then show ?thesis by simp
  next
    case (Suc k)
    from Cons.prems have d: "distinct (map f xs)" and nx: "f x \<notin> f ` set xs" by simp_all
    have "filter (\<lambda>y. f y \<in> insert (f x) (f ` set (take k xs))) xs
          = filter (\<lambda>y. f y \<in> f ` set (take k xs)) xs"
    proof (rule filter_cong[OF refl])
      fix y assume "y \<in> set xs"
      then have "f y \<in> f ` set xs" by (rule imageI)
      with nx have "f y \<noteq> f x" by metis
      then show "(f y \<in> insert (f x) (f ` set (take k xs))) = (f y \<in> f ` set (take k xs))"
        by simp
    qed
    then show ?thesis using Suc Cons.IH[OF d, of k] by simp
  qed
qed

lemma filter_upt_nth:
  "filter P xs = map ((!) xs) (filter (\<lambda>i. P (xs ! i)) [0..<length xs])"
proof -
  have "filter P xs = filter P (map ((!) xs) [0..<length xs])" by (simp add: map_nth)
  also have "\<dots> = map ((!) xs) (filter (P \<circ> (!) xs) [0..<length xs])" by (rule filter_map)
  finally show ?thesis by (simp add: comp_def)
qed

lemma map_nth_upt_take: "n \<le> length xs \<Longrightarrow> map ((!) xs) [0..<n] = take n xs"
proof -
  assume n: "n \<le> length xs"
  have "take n xs = take n (map ((!) xs) [0..<length xs])" by (simp add: map_nth)
  also have "\<dots> = map ((!) xs) (take n [0..<length xs])" by (rule take_map)
  also have "take n [0..<length xs] = [0..<n]" using n by (simp add: take_upt)
  finally show ?thesis by simp
qed

lemma select_channels_ok:
  assumes dist: "distinct (ch_names r)" and len: "length (raw_data r) = length (chs r)"
    and sel: "select_channels geom r = (r1, Inr (coils, picks, data))"
  defines "n \<equiv> length (filter is_meg (chs r))"
  shows "0 < n \<and> n \<le> length (chs r)
         \<and> filter is_meg (chs r) = take n (chs r)
         \<and> coils = map (coil_of geom) (take n (chs r))
         \<and> picks = [0..<n]
         \<and> r1 = r\<lparr>chs := take n (chs r), raw_data := take n (raw_data r)\<rparr>
         \<and> data = take n (raw_data r)"
proof -
  let ?megs = "filter is_meg (chs r)"
  let ?all = "map (coil_of geom) ?megs"
  let ?idxs = "filter (\<lambda>i. is_meg (chs r ! i)) [0..<length (chs r)]"
  have mk: "make_coils geom r = (if length ?megs \<le> 0 then Inl NoMegChannels else Inr ?all)"
    by (simp add: make_coils_def Let_def)
  from sel have npos: "0 < n"
    unfolding n_def by (auto simp: select_channels_def mk split: if_splits)
  then have mk': "make_coils geom r = Inr ?all" unfolding n_def mk by simp
  from sel obtain picks' coils' where
    p: "collect (\<lambda>coil. index_of (ch_names r) (chname coil)) ?all = Inr picks'"
    and c: "collect (list_get ?all) picks' = Inr coils'"
    and d: "raw_getitem (pick_channels r (map chname coils')) picks' = Inr data"
    and eqs: "coils = coils'" "picks = picks'" "r1 = pick_channels r (map chname coils')"
    unfolding select_channels_def mk'
    by (auto simp: Let_def split: sum.splits)
  have megs: "?megs = map ((!) (chs r)) ?idxs" by (rule filter_upt_nth)
  have li: "length ?idxs = n" unfolding n_def using megs by (metis length_map)
  have idx_lt: "\<forall>k<n. ?idxs ! k < length (chs r)"
    using li nth_mem by (metis (no_types, lifting) atLeastLessThan_iff filter_is_subset subsetD set_upt)
  from collect_Inr[OF p] have lp: "length picks' = n"
    and pk: "\<forall>k<n. index_of (ch_names r) (chname (?all ! k)) = Inr (picks' ! k)"
    by (simp_all add: n_def)
  have picks_idxs: "picks' = ?idxs"
  proof (rule nth_equalityI)
    show "length picks' = length ?idxs" using lp li by simp
  next
    fix k assume "k < length picks'"
    then have k: "k < n" using lp by simp
    then have a: "?all ! k = coil_of geom (?megs ! k)" by (simp add: n_def)
    have b: "?megs ! k = chs r ! (?idxs ! k)" using megs k li by (metis nth_map)
    have "chname (?all ! k) = ch_name (chs r ! (?idxs ! k))"
      unfolding a b by (simp add: coil_of_def)
    also have "\<dots> = ch_names r ! (?idxs ! k)" using idx_lt k by (simp add: ch_names_def)
    finally have cn: "chname (?all ! k) = ch_names r ! (?idxs ! k)" .
    have "?idxs ! k < length (ch_names r)" using idx_lt k by (simp add: ch_names_def)
    from index_of_nth[OF dist this]
    have e2: "index_of (ch_names r) (chname (?all ! k)) = Inr (?idxs ! k)" unfolding cn .
    have e1: "index_of (ch_names r) (chname (?all ! k)) = Inr (picks' ! k)" using pk k by blast
    have "(Inr (picks' ! k) :: error + nat) = Inr (?idxs ! k)" using e1 e2 by (rule trans[OF sym])
    then show "picks' ! k = ?idxs ! k" by (simp only: sum.inject)
  qed
  from collect_Inr[OF c] have lc: "length coils' = n"
    and ck: "\<forall>k<n. list_get ?all (picks' ! k) = Inr (coils' ! k)"
    using lp by simp_all
  have bound: "\<forall>x\<in>set ?idxs. x < length ?idxs"
  proof
    fix x assume "x \<in> set ?idxs"
    then obtain k where k: "k < n" and x: "x = picks' ! k"
      using picks_idxs lp by (metis in_set_conv_nth)
    from ck k have "list_get ?all (picks' ! k) = Inr (coils' ! k)" by simp
    then have "picks' ! k < length ?all" by (auto simp: list_get_def split: if_splits)
    then show "x < length ?idxs" using x li by (simp add: n_def)
  qed
  have "?idxs = [0..<length ?idxs]"
    by (rule sorted_bounded_upt[OF _ _ bound]) (simp_all add: sorted_wrt_filter)
  then have idxs: "?idxs = [0..<n]" using li by simp
  have nle: "n \<le> length (chs r)" unfolding n_def by simp
  have megs_take: "?megs = take n (chs r)"
    using megs idxs map_nth_upt_take[OF nle] by simp
  have picks_upt: "picks' = [0..<n]" using picks_idxs idxs by simp
  have coils_all: "coils' = ?all"
  proof (rule nth_equalityI)
    show "length coils' = length ?all" using lc by (simp add: n_def)
  next
    fix k assume "k < length coils'"
    then have k: "k < n" using lc by simp
    from ck k picks_upt have "list_get ?all k = Inr (coils' ! k)" by simp
    then show "coils' ! k = ?all ! k" by (auto simp: list_get_def split: if_splits)
  qed
  have names: "map chname coils' = map ch_name (take n (chs r))"
    unfolding coils_all megs_take by (simp add: coil_of_def)
  let ?z = "zip (chs r) (raw_data r)"
  have dz: "distinct (map (ch_name \<circ> fst) ?z)"
    using dist len by (simp add: ch_names_def map_fst_zip flip: map_map)
  have tz: "take n ?z = zip (take n (chs r)) (take n (raw_data r))" by (rule take_zip)
  have img: "(ch_name \<circ> fst) ` set (take n ?z) = set (map ch_name (take n (chs r)))"
  proof -
    have "map fst (zip (take n (chs r)) (take n (raw_data r))) = take n (chs r)"
      using len by (simp add: map_fst_zip)
    then have "map (ch_name \<circ> fst) (zip (take n (chs r)) (take n (raw_data r)))
               = map ch_name (take n (chs r))"
      by (metis map_map)
    then have "set (map (ch_name \<circ> fst) (zip (take n (chs r)) (take n (raw_data r))))
               = set (map ch_name (take n (chs r)))" by (rule arg_cong)
    then show ?thesis unfolding tz by (simp only: set_map)
  qed
  have "filter (\<lambda>(ch, row). ch_name ch \<in> set (map chname coils')) ?z
        = filter (\<lambda>x. (ch_name \<circ> fst) x \<in> (ch_name \<circ> fst) ` set (take n ?z)) ?z"
    unfolding names img by (simp add: case_prod_unfold)
  also have "\<dots> = take n ?z" by (rule filter_take_distinct[OF dz])
  finally have kept: "filter (\<lambda>(ch, row). ch_name ch \<in> set (map chname coils')) ?z
        = zip (take n (chs r)) (take n (raw_data r))" using tz by simp
  have r1: "pick_channels r (map chname coils')
            = r\<lparr>chs := take n (chs r), raw_data := take n (raw_data r)\<rparr>"
    unfolding pick_channels_def Let_def kept using len by (simp add: map_fst_zip map_snd_zip)
  have data: "data = take n (raw_data r)"
  proof (rule nth_equalityI)
    from collect_Inr[OF d[unfolded raw_getitem_def]] lp
    have ld: "length data = n"
      and dk: "\<forall>k<n. list_get (raw_data (pick_channels r (map chname coils'))) (picks' ! k)
                = Inr (data ! k)" by simp_all
    show "length data = length (take n (raw_data r))" using ld len nle by simp
    fix k assume "k < length data"
    then have k: "k < n" using ld by simp
    with dk picks_upt have "list_get (take n (raw_data r)) k = Inr (data ! k)"
      unfolding r1 by simp
    then show "data ! k = take n (raw_data r) ! k" by (auto simp: list_get_def split: if_splits)
  qed
  show ?thesis using npos nle megs_take coils_all picks_upt r1 data eqs by simp
qed

lemma demo_select:
  "select_channels demo_geom demo_raw
   = (demo_raw\<lparr>chs := take 3 (chs demo_raw), raw_data := take 3 (raw_data demo_raw)\<rparr>,
      Inr (demo_coils, [0, 1, 2], [[1, 2], [3, 4], [5, 6]]))"
  by (simp add: select_channels_def make_coils_def coil_of_def demo_raw_def demo_geom_def
      demo_coils_def ch_names_def list_get_def pick_channels_def raw_getitem_def Let_def)

text \<open>Where a channel that is not a MEG channel comes before a MEG channel, line 74 reads
  \<open>all_coils\<close> at a channel index that is beyond its end, and the selection ends with an
  IndexError.\<close>

lemma select_channels_meg_not_first:
  "select_channels demo_geom
     \<lparr>chs = [\<lparr>ch_name = ''EEG001'', is_meg = False\<rparr>, \<lparr>ch_name = ''MEG0111'', is_meg = True\<rparr>],
      bads = [], maxshield = None, proc_history = None,
      raw_data = [[7, 8], [1, 2]], n_times = 2\<rparr>
   = (\<lparr>chs = [\<lparr>ch_name = ''EEG001'', is_meg = False\<rparr>, \<lparr>ch_name = ''MEG0111'', is_meg = True\<rparr>],
      bads = [], maxshield = None, proc_history = None,
      raw_data = [[7, 8], [1, 2]], n_times = 2\<rparr>, Inl IndexError)"
  by (simp add: select_channels_def make_coils_def coil_of_def demo_geom_def ch_names_def
      list_get_def Let_def)



subsection \<open>What the loops write, and the normalisation\<close>

lemma fill_rows_content:
  assumes "length spc = n" "\<forall>row\<in>set spc. length row = ncols"
    and "0 \<le> col" "col < int ncols" "\<forall>i\<in>set pts. i < n"
    and "fill_rows ag il col pts (wl, spc) = (wl', Inr spc')"
  shows "\<forall>i<n. \<forall>c<ncols. spc' ! i ! c
           = (if c = nat col \<and> i \<in> set pts
              then np_sum (py_slice ag (il ! i) (il ! (i + 1))) else spc ! i ! c)"
  using assms
proof (induction pts arbitrary: wl spc)
  case Nil
  then show ?case by simp
next
  case (Cons i0 pts)
  let ?v = "np_sum (py_slice ag (il ! i0) (il ! (i0 + 1)))"
  let ?spc = "spc[i0 := (spc ! i0)[nat col := ?v]]"
  have i0: "i0 < length spc" using Cons.prems by simp
  then have lr: "length (spc ! i0) = ncols" using Cons.prems by simp
  then have sc: "set_cell spc i0 col ?v = Inr (nat col, ?spc)"
    using i0 Cons.prems by (intro set_cell_in_range) simp_all
  have len: "length ?spc = n" using Cons.prems by simp
  have rows: "\<forall>row\<in>set ?spc. length row = ncols"
  proof
    fix row assume "row \<in> set ?spc"
    then have "row \<in> insert ((spc ! i0)[nat col := ?v]) (set spc)"
      using set_update_subset_insert by fast
    then show "length row = ncols" using Cons.prems i0 by auto
  qed
  have pts: "\<forall>i\<in>set pts. i < n" using Cons.prems by simp
  have f: "fill_rows ag il col pts (wl @ [(i0, nat col)], ?spc) = (wl', Inr spc')"
    using Cons.prems(6) sc by (simp add: Let_def)
  note IH = Cons.IH[OF len rows Cons.prems(3) Cons.prems(4) pts f]
  have cn: "nat col < ncols" using Cons.prems(3,4) by simp
  show ?case
  proof (intro allI impI)
    fix i c assume i: "i < n" and c: "c < ncols"
    have "?spc ! i ! c = (if i = i0 \<and> c = nat col then ?v else spc ! i ! c)"
      using i c i0 lr Cons.prems(1) by (auto simp: nth_list_update)
    with IH i c show "spc' ! i ! c
           = (if c = nat col \<and> i \<in> set (i0 # pts)
              then np_sum (py_slice ag (il ! i) (il ! (i + 1))) else spc ! i ! c)"
      by auto
  qed
qed

lemma fill_pairs_content:
  assumes "length spc = n" "\<forall>row\<in>set spc. length row = ncols"
    and "length il - 1 = n"
    and "\<forall>(d, m)\<in>set pairs. 0 \<le> col_index d m \<and> col_index d m < int ncols"
    and "distinct (map (\<lambda>(d, m). col_index d m) pairs)"
    and "fill_pairs g sp nc wc il pairs (wl, spc) = (wl', Inr spc')"
  shows "(\<forall>(d, m)\<in>set pairs. \<forall>gr. g d m sp = Inr gr \<longrightarrow>
            (\<forall>i<n. spc' ! i ! nat (col_index d m) = int_pts_sum_of gr nc wc il i))
         \<and> (\<forall>c<ncols. (\<forall>(d, m)\<in>set pairs. nat (col_index d m) \<noteq> c) \<longrightarrow>
               (\<forall>i<n. spc' ! i ! c = spc ! i ! c))
         \<and> length spc' = n \<and> (\<forall>row\<in>set spc'. length row = ncols)"
  using assms
proof (induction pairs arbitrary: wl spc)
  case Nil
  then show ?case by simp
next
  case (Cons p pairs)
  obtain d m where p: "p = (d, m)" by (cases p)
  from Cons.prems(4) p have c0: "0 \<le> col_index d m" and c1: "col_index d m < int ncols"
    by auto
  have cn: "nat (col_index d m) < ncols" using c0 c1 by simp
  from Cons.prems(6) p obtain gr where gr: "g d m sp = Inr gr"
    by (auto split: sum.splits)
  let ?grads = "map (\<lambda>(g0, g1, g2). (map_option ((*) (- 1)) g0, map_option ((*) (- 1)) g1,
                                        map_option ((*) (- 1)) g2)) gr"
  let ?ag = "weighted_dots ?grads nc wc"
  have upt: "\<forall>i\<in>set [0..<n]. i < n" by simp
  from fill_rows_ok[OF Cons.prems(1) Cons.prems(2) c0 c1 upt, of ?ag il wl]
  obtain spc1 where f1: "fill_rows ?ag il (col_index d m) [0..<n] (wl, spc)
        = (wl @ map (\<lambda>i. (i, nat (col_index d m))) [0..<n], Inr spc1)"
    and l1: "length spc1 = n" and r1: "\<forall>row\<in>set spc1. length row = ncols" by blast
  note c1content = fill_rows_content[OF Cons.prems(1) Cons.prems(2) c0 c1 upt f1]
  have f2: "fill_pairs g sp nc wc il pairs
         (wl @ map (\<lambda>i. (i, nat (col_index d m))) [0..<n], spc1) = (wl', Inr spc')"
    using Cons.prems(6) p gr f1 Cons.prems(3) by (simp add: Let_def)
  have rest: "\<forall>(d, m)\<in>set pairs. 0 \<le> col_index d m \<and> col_index d m < int ncols"
    using Cons.prems(4) by simp
  have drest: "distinct (map (\<lambda>(d, m). col_index d m) pairs)" using Cons.prems(5) by simp
  note IH = Cons.IH[OF l1 r1 Cons.prems(3) rest drest f2]
  have fresh: "\<forall>(d', m')\<in>set pairs. nat (col_index d' m') \<noteq> nat (col_index d m)"
  proof (clarify)
    fix d' m' assume in': "(d', m') \<in> set pairs"
      and eq: "nat (col_index d' m') = nat (col_index d m)"
    from rest in' have "0 \<le> col_index d' m'" by auto
    with eq c0 have "col_index d' m' = col_index d m" by simp
    moreover have "col_index d m \<notin> set (map (\<lambda>(d, m). col_index d m) pairs)"
      using Cons.prems(5) p by simp
    ultimately show False using in' by force
  qed
  have head: "\<forall>i<n. spc' ! i ! nat (col_index d m) = int_pts_sum_of gr nc wc il i"
  proof (intro allI impI)
    fix i assume i: "i < n"
    from IH fresh cn i have "spc' ! i ! nat (col_index d m) = spc1 ! i ! nat (col_index d m)"
      by blast
    also have "\<dots> = np_sum (py_slice ?ag (il ! i) (il ! (i + 1)))"
      using c1content i cn by simp
    finally show "spc' ! i ! nat (col_index d m) = int_pts_sum_of gr nc wc il i"
      by (simp add: int_pts_sum_of_def)
  qed
  show ?case
  proof (intro conjI ballI allI impI)
    fix q assume q: "q \<in> set (p # pairs)"
    show "case q of (d, m) \<Rightarrow> \<forall>gr. g d m sp = Inr gr \<longrightarrow>
            (\<forall>i<n. spc' ! i ! nat (col_index d m) = int_pts_sum_of gr nc wc il i)"
    proof (cases "q = p")
      case True
      then show ?thesis using p head gr by auto
    next
      case False
      with q have "q \<in> set pairs" by simp
      with IH show ?thesis by blast
    qed
  next
    fix c i assume c: "c < ncols" and i: "i < n"
      and no: "\<forall>(d, m)\<in>set (p # pairs). nat (col_index d m) \<noteq> c"
    from no p have ne: "c \<noteq> nat (col_index d m)" by auto
    from no have "\<forall>(d, m)\<in>set pairs. nat (col_index d m) \<noteq> c" by simp
    with IH c i have "spc' ! i ! c = spc1 ! i ! c" by blast
    also have "\<dots> = spc ! i ! c" using c1content i c ne by simp
    finally show "spc' ! i ! c = spc ! i ! c" .
  next
    show "length spc' = n" using IH by blast
  next
    fix row assume "row \<in> set spc'"
    then show "length row = ncols" using IH by blast
  qed
qed

lemma sss_side_content:
  assumes "0 \<le> L" "length il - 1 = n" "length cs = n"
    and "sss_side g L sp nc wc il cs n = (wl, Inr S)"
  shows "\<exists>spc. length spc = n \<and> (\<forall>row\<in>set spc. length row = nat (basis_cols L))
           \<and> S = normalize_cols (nat (basis_cols L)) (scale_rows cs spc)
           \<and> (\<forall>(d, m)\<in>set (deg_order_pairs L). \<forall>gr. g d m sp = Inr gr \<longrightarrow>
                 (\<forall>i<n. spc ! i ! nat (col_index d m) = int_pts_sum_of gr nc wc il i))"
proof -
  let ?ncols = "nat (basis_cols L)"
  let ?spc0 = "replicate n (replicate ?ncols (None :: npfloat))"
  from assms(4) obtain spc where
    f: "fill_pairs g sp nc wc il (deg_order_pairs L) ([], ?spc0) = (wl, Inr spc)"
    and S: "S = normalize_cols ?ncols (scale_rows cs spc)"
    by (auto simp: sss_side_def fill_side_def Let_def split: prod.splits sum.splits)
  have s0: "length ?spc0 = n" "\<forall>row\<in>set ?spc0. length row = ?ncols" by simp_all
  have pairs: "\<forall>(d, m)\<in>set (deg_order_pairs L). 0 \<le> col_index d m
        \<and> col_index d m < int ?ncols"
    using col_index_in_range[OF assms(1)] basis_cols_nonneg[OF assms(1)] by fastforce
  have dist: "distinct (map (\<lambda>(d, m). col_index d m) (deg_order_pairs L))"
    unfolding cols_of_pairs[OF assms(1)] by simp
  from fill_pairs_content[OF s0 assms(2) pairs dist f] S show ?thesis by blast
qed

lemma np_sum_None_iff: "np_sum xs = None \<longleftrightarrow> None \<in> set xs"
  by (induction xs) (auto simp: np_sum_def lift2_def split: option.splits)

lemma np_sum_map_Some: "np_sum (map Some ys) = Some (sum_list ys)"
  by (induction ys) (auto simp: np_sum_def lift2_def)

lemma normalize_cols_nth:
  assumes "\<forall>row\<in>set spc. length row = ncols" "i < length spc" "c < ncols"
  shows "normalize_cols ncols spc ! i ! c
         = np_divo (spc ! i ! c) (map_option sqrt (col_sumsq spc c))"
  using assms by (simp add: normalize_cols_def)

lemma scale_rows_nth:
  assumes "length cs = length spc" "\<forall>row\<in>set spc. length row = ncols" "i < length spc"
    "c < ncols"
  shows "scale_rows cs spc ! i ! c = map_option (\<lambda>x. x * cs ! i) (spc ! i ! c)"
  using assms by (simp add: scale_rows_def)

lemma those_map_Some: "those (map Some xs) = Some xs"
  by (induction xs) simp_all

lemma all_Some_map:
  assumes "None \<notin> set xs"
  shows "xs = map Some (map the xs)"
  using assms by (induction xs) auto

lemma col_sumsq_None_iff: "col_sumsq M c = None \<longleftrightarrow> (\<exists>row\<in>set M. row ! c = None)"
  by (auto simp: col_sumsq_def np_sum_None_iff lift2_def split: option.splits)

lemma col_sumsq_Some:
  assumes "col_sumsq M c = Some v"
  shows "\<exists>ys. map (\<lambda>row. row ! c) M = map Some ys \<and> v = sum_list (map (\<lambda>y. y * y) ys)"
proof -
  have "col_sumsq M c \<noteq> None" using assms by simp
  then have "None \<notin> set (map (\<lambda>row. row ! c) M)"
    unfolding col_sumsq_None_iff by auto
  from all_Some_map[OF this] obtain ys where ys: "map (\<lambda>row. row ! c) M = map Some ys"
    by blast
  have "map (\<lambda>row. lift2 (*) (row ! c) (row ! c)) M
        = map (\<lambda>x. lift2 (*) x x) (map (\<lambda>row. row ! c) M)" by simp
  also have "\<dots> = map Some (map (\<lambda>y. y * y) ys)" unfolding ys by (simp add: lift2_def)
  finally have "col_sumsq M c = Some (sum_list (map (\<lambda>y. y * y) ys))"
    unfolding col_sumsq_def by (simp only: np_sum_map_Some)
  with assms ys show ?thesis by auto
qed

lemma sum_list_scaled_squares:
  fixes s :: real
  shows "sum_list (map (\<lambda>x. x * x) (map (\<lambda>y. y / s) ys))
         = sum_list (map (\<lambda>y. y * y) ys) / (s * s)"
  by (induction ys) (simp_all add: add_divide_distrib)

lemma normalize_column:
  assumes rows: "\<forall>row\<in>set M. length row = ncols" and c: "c < ncols"
  shows "if col_sumsq M c = None \<or> col_sumsq M c = Some 0
         then nan_column (normalize_cols ncols M) c
         else unit_column (normalize_cols ncols M) c"
proof -
  let ?N = "normalize_cols ncols M"
  have len: "length ?N = length M" by (simp add: normalize_cols_def)
  have ent: "?N ! i ! c = np_divo (M ! i ! c) (map_option sqrt (col_sumsq M c))"
    if "i < length M" for i
    using normalize_cols_nth[OF rows that c] .
  have col: "map (\<lambda>row. row ! c) ?N
             = map (\<lambda>row. np_divo (row ! c) (map_option sqrt (col_sumsq M c))) M"
    by (rule nth_equalityI) (simp_all add: len ent)
  show ?thesis
  proof (cases "col_sumsq M c")
    case None
    have "\<forall>x\<in>set (map (\<lambda>row. row ! c) ?N). x = None"
      unfolding col None by (auto simp: np_divo_def split: option.splits Option.bind_splits)
    then show ?thesis using None by (auto simp: nan_column_def list_all_iff)
  next
    case (Some v)
    from col_sumsq_Some[OF Some] obtain ys where
      ys: "map (\<lambda>row. row ! c) M = map Some ys" and v: "v = sum_list (map (\<lambda>y. y * y) ys)"
      by blast
    have col': "map (\<lambda>row. row ! c) ?N = map (\<lambda>x. np_divo x (Some (sqrt v))) (map Some ys)"
      unfolding col Some ys[symmetric] by simp
    show ?thesis
    proof (cases "v = 0")
      case True
      have "\<forall>x\<in>set (map (\<lambda>row. row ! c) ?N). x = None"
        unfolding col' using True by (auto simp: np_divo_def np_div_def)
      then show ?thesis using Some True by (auto simp: nan_column_def list_all_iff)
    next
      case False
      have vpos: "0 \<le> v" unfolding v by (induction ys) simp_all
      with False have sq: "sqrt v \<noteq> 0" "sqrt v * sqrt v = v" by simp_all
      have "map (\<lambda>row. row ! c) ?N = map Some (map (\<lambda>y. y / sqrt v) ys)"
        unfolding col' using sq by (simp add: np_divo_def np_div_def)
      then have th: "those (map (\<lambda>row. row ! c) ?N) = Some (map (\<lambda>y. y / sqrt v) ys)"
        by (simp only: those_map_Some)
      have "sum_list (map (\<lambda>x. x * x) (map (\<lambda>y. y / sqrt v) ys)) = v / (sqrt v * sqrt v)"
        unfolding sum_list_scaled_squares v[symmetric] ..
      also have "\<dots> = 1" using sq False by simp
      finally have "unit_column ?N c" unfolding unit_column_def th by simp
      then show ?thesis using Some False by simp
    qed
  qed
qed

lemma fill_side_content:
  assumes "0 \<le> L" "length il - 1 = n" "length cs = n"
    and "fill_side g L sp nc wc il cs n = (wl, Inr M)"
  shows "length M = n \<and> (\<forall>row\<in>set M. length row = nat (basis_cols L))
         \<and> (\<forall>(d, m)\<in>set (deg_order_pairs L). \<forall>gr. g d m sp = Inr gr \<longrightarrow>
               (\<forall>i<n. M ! i ! nat (col_index d m)
                   = map_option (\<lambda>x. x * cs ! i) (int_pts_sum_of gr nc wc il i)))"
proof -
  let ?ncols = "nat (basis_cols L)"
  let ?spc0 = "replicate n (replicate ?ncols (None :: npfloat))"
  from assms(4) obtain spc where
    f: "fill_pairs g sp nc wc il (deg_order_pairs L) ([], ?spc0) = (wl, Inr spc)"
    and M: "M = scale_rows cs spc"
    by (auto simp: fill_side_def Let_def split: prod.splits sum.splits)
  have s0: "length ?spc0 = n" "\<forall>row\<in>set ?spc0. length row = ?ncols" by simp_all
  have pairs: "\<forall>(d, m)\<in>set (deg_order_pairs L). 0 \<le> col_index d m
        \<and> col_index d m < int ?ncols"
    using col_index_in_range[OF assms(1)] basis_cols_nonneg[OF assms(1)] by fastforce
  have dist: "distinct (map (\<lambda>(d, m). col_index d m) (deg_order_pairs L))"
    unfolding cols_of_pairs[OF assms(1)] by simp
  note fc = fill_pairs_content[OF s0 assms(2) pairs dist f]
  from fc have l: "length spc = n" and r: "\<forall>row\<in>set spc. length row = ?ncols" by blast+
  have cl: "length cs = length spc" using l assms(3) by simp
  note sh = scale_rows_shape[OF cl r]
  show ?thesis
  proof (intro conjI ballI)
    show "length M = n" using sh l M by simp
  next
    fix row assume "row \<in> set M"
    then show "length row = ?ncols" using sh M by simp
  next
    fix p assume p: "p \<in> set (deg_order_pairs L)"
    obtain d m where dm: "p = (d, m)" by (cases p)
    from pairs p dm have "0 \<le> col_index d m \<and> col_index d m < int ?ncols" by auto
    then have cn: "nat (col_index d m) < ?ncols" by linarith
    have "\<forall>gr. g d m sp = Inr gr \<longrightarrow>
               (\<forall>i<n. M ! i ! nat (col_index d m)
                   = map_option (\<lambda>x. x * cs ! i) (int_pts_sum_of gr nc wc il i))"
    proof (intro allI impI)
      fix gr i assume gr: "g d m sp = Inr gr" and i: "i < n"
      from fc p dm gr i have e: "spc ! i ! nat (col_index d m) = int_pts_sum_of gr nc wc il i"
        by blast
      have "i < length spc" using i l by simp
      from scale_rows_nth[OF cl r this cn] e
      show "M ! i ! nat (col_index d m)
              = map_option (\<lambda>x. x * cs ! i) (int_pts_sum_of gr nc wc il i)"
        unfolding M by simp
    qed
    then show "case p of (d, m) \<Rightarrow> \<forall>gr. g d m sp = Inr gr \<longrightarrow>
               (\<forall>i<n. M ! i ! nat (col_index d m)
                   = map_option (\<lambda>x. x * cs ! i) (int_pts_sum_of gr nc wc il i))"
      using dm by simp
  qed
qed

lemma sss_basis_scaled:
  assumes "0 \<le> io" "0 \<le> eo"
    and "sss_basis lpmv origin coils io eo = (wl, Inr (S_in, S_out))"
  shows "\<exists>M_in M_out.
           sss_scaled (grad_in_components lpmv) origin coils io = Inr M_in
         \<and> sss_scaled (grad_out_components lpmv) origin coils eo = Inr M_out
         \<and> S_in = normalize_cols (nat (basis_cols io)) M_in
         \<and> S_out = normalize_cols (nat (basis_cols eo)) M_out"
  using assms(3)
  by (auto simp: sss_basis_def sss_basis_with_def sss_scaled_def sss_side_def
      concatenate_coils_def cart_to_sph_def Let_def split: if_splits prod.splits sum.splits)

lemma sss_scaled_shape:
  assumes "0 \<le> L" "sss_scaled g origin coils L = Inr M"
  shows "length M = length coils \<and> (\<forall>row\<in>set M. length row = nat (basis_cols L))"
proof -
  let ?ip = "map (\<lambda>c. length (int_points c)) coils"
  have il: "length (int_lens_of ?ip) - 1 = length coils" by (simp add: length_int_lens_of)
  have cs: "length (coil_scale_of coils) = length coils" by (simp add: coil_scale_of_def)
  let ?F = "fill_side g L (map cart_to_sph_pt (map (\<lambda>p. vsub p origin)
        (concat (map (\<lambda>c. map fst (int_points c)) coils))))
       (concat (map (\<lambda>c. map (\<lambda>p. fst (snd p)) (int_points c)) coils))
       (concat (map (\<lambda>c. map (\<lambda>p. snd (snd p)) (int_points c)) coils))
       (int_lens_of ?ip) (coil_scale_of coils) (length coils)"
  have "snd ?F = Inr M"
    using assms(2) unfolding sss_scaled_def concatenate_coils_def
    by (simp only: prod.case length_map)
  then have "?F = (fst ?F, Inr M)" by (metis prod.collapse)
  from fill_side_content[OF assms(1) il cs this] show ?thesis by blast
qed

lemma sss_scaled_written:
  assumes "0 \<le> L" "sss_scaled g origin coils L = Inr M"
    and "\<forall>(d, m)\<in>set (deg_order_pairs L). \<exists>gr. g d m (map cart_to_sph_pt
            (map (\<lambda>p. vsub p origin) (concat (map (\<lambda>c. map fst (int_points c)) coils)))) = Inr gr"
  shows "written_cells g origin coils L M"
proof -
  let ?ip = "map (\<lambda>c. length (int_points c)) coils"
  let ?sp = "map cart_to_sph_pt (map (\<lambda>p. vsub p origin)
        (concat (map (\<lambda>c. map fst (int_points c)) coils)))"
  let ?nc = "concat (map (\<lambda>c. map (\<lambda>p. fst (snd p)) (int_points c)) coils)"
  let ?wc = "concat (map (\<lambda>c. map (\<lambda>p. snd (snd p)) (int_points c)) coils)"
  have il: "length (int_lens_of ?ip) - 1 = length coils" by (simp add: length_int_lens_of)
  have cs: "length (coil_scale_of coils) = length coils" by (simp add: coil_scale_of_def)
  let ?F = "fill_side g L ?sp ?nc ?wc (int_lens_of ?ip) (coil_scale_of coils) (length coils)"
  have "snd ?F = Inr M"
    using assms(2) unfolding sss_scaled_def concatenate_coils_def
    by (simp only: prod.case length_map)
  then have "?F = (fst ?F, Inr M)" by (metis prod.collapse)
  note fc = fill_side_content[OF assms(1) il cs this]
  from fc have l: "length M = length coils"
    and r: "\<forall>row\<in>set M. length row = nat (basis_cols L)" by blast+
  have c: "list_all (\<lambda>(deg, order).
                 case g deg order ?sp of
                   Inl e \<Rightarrow> False
                 | Inr gr \<Rightarrow>
                     list_all (\<lambda>pt_i. M ! pt_i ! nat (col_index deg order)
                                 = map_option (\<lambda>x. x * coil_scale_of coils ! pt_i)
                                     (int_pts_sum_of gr ?nc ?wc (int_lens_of ?ip) pt_i))
                       [0..<length coils])
               (deg_order_pairs L)"
    unfolding list_all_iff
  proof (clarify)
    fix d m assume p: "(d, m) \<in> set (deg_order_pairs L)"
    with assms(3) obtain gr where gr: "g d m ?sp = Inr gr" by blast
    from fc p gr have "\<forall>i<length coils. M ! i ! nat (col_index d m)
                   = map_option (\<lambda>x. x * coil_scale_of coils ! i)
                       (int_pts_sum_of gr ?nc ?wc (int_lens_of ?ip) i)" by blast
    then show "case g d m ?sp of
                   Inl e \<Rightarrow> False
                 | Inr gr \<Rightarrow>
                     \<forall>pt_i\<in>set [0..<length coils]. M ! pt_i ! nat (col_index d m)
                                 = map_option (\<lambda>x. x * coil_scale_of coils ! pt_i)
                                     (int_pts_sum_of gr ?nc ?wc (int_lens_of ?ip) pt_i)"
      using gr by simp
  qed
  from r have r': "list_all (\<lambda>row. length row = nat (basis_cols L)) M"
    by (simp add: list_all_iff)
  show ?thesis
    unfolding written_cells_def concatenate_coils_def prod.case Let_def length_map
    using l r' c by (intro conjI)
qed

lemma sss_scaled_written_in:
  assumes "0 \<le> L" "sss_scaled (grad_in_components lpmv) origin coils L = Inr M"
  shows "written_cells (grad_in_components lpmv) origin coils L M"
proof -
  let ?sp = "map cart_to_sph_pt (map (\<lambda>p. vsub p origin)
        (concat (map (\<lambda>c. map fst (int_points c)) coils)))"
  have gin: "\<forall>(d, m)\<in>set (deg_order_pairs L). \<exists>gr. grad_in_components lpmv d m ?sp = Inr gr"
  proof (clarify)
    fix d m assume "(d, m) \<in> set (deg_order_pairs L)"
    then have "\<bar>m\<bar> \<le> d" unfolding deg_order_pairs_mem by linarith
    from grad_in_components_ok[OF this]
    show "\<exists>gr. grad_in_components lpmv d m ?sp = Inr gr" by blast
  qed
  from sss_scaled_written[OF assms gin] show ?thesis .
qed

lemma sss_scaled_written_out:
  assumes "0 \<le> L" "sss_scaled (grad_out_components lpmv) origin coils L = Inr M"
  shows "written_cells (grad_out_components lpmv) origin coils L M"
proof -
  let ?sp = "map cart_to_sph_pt (map (\<lambda>p. vsub p origin)
        (concat (map (\<lambda>c. map fst (int_points c)) coils)))"
  have gout: "\<forall>(d, m)\<in>set (deg_order_pairs L). \<exists>gr. grad_out_components lpmv d m ?sp = Inr gr"
  proof (clarify)
    fix d m assume "(d, m) \<in> set (deg_order_pairs L)"
    then have "\<bar>m\<bar> \<le> d" unfolding deg_order_pairs_mem by linarith
    from grad_out_components_ok[OF this]
    show "\<exists>gr. grad_out_components lpmv d m ?sp = Inr gr" by blast
  qed
  from sss_scaled_written[OF assms gout] show ?thesis .
qed

lemma sss_basis_written:
  assumes "0 \<le> io" "0 \<le> eo"
    and "sss_basis lpmv origin coils io eo = (wl, Inr (S_in, S_out))"
  shows "\<exists>M_in M_out.
           written_cells (grad_in_components lpmv) origin coils io M_in
         \<and> written_cells (grad_out_components lpmv) origin coils eo M_out
         \<and> S_in = normalize_cols (nat (basis_cols io)) M_in
         \<and> S_out = normalize_cols (nat (basis_cols eo)) M_out"
proof -
  let ?sp = "map cart_to_sph_pt (map (\<lambda>p. vsub p origin)
        (concat (map (\<lambda>c. map fst (int_points c)) coils)))"
  from sss_basis_scaled[OF assms] obtain M_in M_out where
    mi: "sss_scaled (grad_in_components lpmv) origin coils io = Inr M_in"
    and mo: "sss_scaled (grad_out_components lpmv) origin coils eo = Inr M_out"
    and si: "S_in = normalize_cols (nat (basis_cols io)) M_in"
    and so: "S_out = normalize_cols (nat (basis_cols eo)) M_out" by blast
  have gin: "\<forall>(d, m)\<in>set (deg_order_pairs io). \<exists>gr. grad_in_components lpmv d m ?sp = Inr gr"
  proof (clarify)
    fix d m assume "(d, m) \<in> set (deg_order_pairs io)"
    then have "\<bar>m\<bar> \<le> d" unfolding deg_order_pairs_mem by linarith
    from grad_in_components_ok[OF this]
    show "\<exists>gr. grad_in_components lpmv d m ?sp = Inr gr" by blast
  qed
  have gout: "\<forall>(d, m)\<in>set (deg_order_pairs eo). \<exists>gr. grad_out_components lpmv d m ?sp = Inr gr"
  proof (clarify)
    fix d m assume "(d, m) \<in> set (deg_order_pairs eo)"
    then have "\<bar>m\<bar> \<le> d" unfolding deg_order_pairs_mem by linarith
    from grad_out_components_ok[OF this]
    show "\<exists>gr. grad_out_components lpmv d m ?sp = Inr gr" by blast
  qed
  from sss_scaled_written[OF assms(1) mi gin] sss_scaled_written[OF assms(2) mo gout] si so
  show ?thesis by blast
qed

text \<open>
  Claim C10. For every order bound \<open>L \<ge> 0\<close> the column index
  \<open>degree\<^sup>2 + degree + order - 1\<close> is a bijection from the pairs with
  \<open>1 \<le> degree \<le> L\<close> and \<open>- degree \<le> order \<le> degree\<close> onto \<open>{0, \<dots>, (L + 1)\<^sup>2 - 2}\<close>.
  Consequently, when \<open>_sss_basis\<close> returns its two matrices, the assembly loops have written
  no cell twice and have written every cell of both matrices, and each matrix returned is
  the division of line 170 applied to a matrix in which every cell of every column holds
  the value computed for the sensor and for the degree and order of the column: no cell
  holds what the initialisation left.
\<close>

theorem column_index_bijection:
  assumes "0 \<le> L" "0 \<le> int_order" "0 \<le> ext_order"
  shows "bij_betw (\<lambda>(d, m). col_index d m)
           {(d, m). 1 \<le> d \<and> d \<le> L \<and> - d \<le> m \<and> m \<le> d} {0..(L + 1) ^ 2 - 2}
         \<and> (\<forall>wl S_in S_out.
               sss_basis lpmv origin coils int_order ext_order = (wl, Inr (S_in, S_out)) \<longrightarrow>
               distinct wl
               \<and> set wl = {Internal} \<times> ({0..<length coils} \<times> {0..<nat ((int_order + 1) ^ 2 - 1)})
                          \<union> {External} \<times> ({0..<length coils} \<times> {0..<nat ((ext_order + 1) ^ 2 - 1)})
               \<and> (\<exists>M_in M_out.
                     written_cells (grad_in_components lpmv) origin coils int_order M_in
                   \<and> written_cells (grad_out_components lpmv) origin coils ext_order M_out
                   \<and> S_in = normalize_cols (nat ((int_order + 1) ^ 2 - 1)) M_in
                   \<and> S_out = normalize_cols (nat ((ext_order + 1) ^ 2 - 1)) M_out))"
proof (intro conjI allI impI)
  show "bij_betw (\<lambda>(d, m). col_index d m)
           {(d, m). 1 \<le> d \<and> d \<le> L \<and> - d \<le> m \<and> m \<le> d} {0..(L + 1) ^ 2 - 2}"
    by (rule col_index_bij[OF assms(1)])
next
  fix wl S_in S_out
  assume ok: "sss_basis lpmv origin coils int_order ext_order = (wl, Inr (S_in, S_out))"
  from sss_basis_success_iff[OF assms(2,3) ok]
  have wl: "wl = map (Pair Internal) (cells (length coils) int_order)
                @ map (Pair External) (cells (length coils) ext_order)" by simp
  note ci = cells_distinct_set[OF assms(2), of "length coils"]
  note ce = cells_distinct_set[OF assms(3), of "length coils"]
  from tagged_log[of "cells (length coils) int_order" "cells (length coils) ext_order"] ci ce
  show "distinct wl" unfolding wl by simp
  from tagged_log[of "cells (length coils) int_order" "cells (length coils) ext_order"] ci ce
  show "set wl = {Internal} \<times> ({0..<length coils} \<times> {0..<nat ((int_order + 1) ^ 2 - 1)})
                          \<union> {External} \<times> ({0..<length coils} \<times> {0..<nat ((ext_order + 1) ^ 2 - 1)})"
    unfolding wl basis_cols_def by simp
  from sss_basis_written[OF assms(2,3) ok]
  show "\<exists>M_in M_out.
           written_cells (grad_in_components lpmv) origin coils int_order M_in
         \<and> written_cells (grad_out_components lpmv) origin coils ext_order M_out
         \<and> S_in = normalize_cols (nat ((int_order + 1) ^ 2 - 1)) M_in
         \<and> S_out = normalize_cols (nat ((ext_order + 1) ^ 2 - 1)) M_out"
    unfolding basis_cols_def .
qed

theorem column_index_bijection_witness:
  "(0::int) \<le> 1 \<and> (0::int) \<le> 0
   \<and> bij_betw (\<lambda>(d, m). col_index d m)
        {(d, m). 1 \<le> d \<and> d \<le> 1 \<and> - d \<le> m \<and> m \<le> d} {0..(1 + 1) ^ 2 - 2}
   \<and> (\<exists>wl S_in S_out M_in M_out.
         sss_basis lpmv_ref (0, 0, 0) demo_coils 1 0 = (wl, Inr (S_in, S_out))
         \<and> distinct wl
         \<and> set wl = {Internal} \<times> ({0..<length demo_coils} \<times> {0..<nat ((1 + 1) ^ 2 - 1)})
                    \<union> {External} \<times> ({0..<length demo_coils} \<times> {0..<nat ((0 + 1) ^ 2 - 1)})
         \<and> written_cells (grad_in_components lpmv_ref) (0, 0, 0) demo_coils 1 M_in
         \<and> written_cells (grad_out_components lpmv_ref) (0, 0, 0) demo_coils 0 M_out
         \<and> S_in = normalize_cols (nat ((1 + 1) ^ 2 - 1)) M_in
         \<and> S_out = normalize_cols (nat ((0 + 1) ^ 2 - 1)) M_out)"
proof -
  have h: "(0::int) \<le> 1" "(0::int) \<le> 0" by simp_all
  from demo_basis_ok obtain wl S_in S_out where
    ok: "sss_basis lpmv_ref (0, 0, 0) demo_coils 1 0 = (wl, Inr (S_in, S_out))" by blast
  from column_index_bijection[OF h(1) h(1) h(2), of lpmv_ref "(0, 0, 0)" demo_coils] ok
  show ?thesis using h by blast
qed

subsection \<open>Norms of the columns\<close>

lemma demo_sph:
  "map cart_to_sph_pt (map (\<lambda>p. vsub p (0, 0, 0)) [(1, 0, 0), (0, 1, 0), (- 1, 0, 0)])
   = [(1, 0, Some (pi / 2)), (1, pi / 2, Some (pi / 2)), (1, pi, Some (pi / 2))]"
  by (simp add: vsub_def cart_to_sph_pt_def vnorm_def arctan2_def np_div_def)

lemma lpmv_ref_values:
  "lpmv_ref 0 1 x = x" "lpmv_ref (- 1) 1 x = sqrt (1 - x ^ 2) / 2"
  by (simp_all add: lpmv_ref_def)

lemma pi_cmp: "\<not> pi / 2 < - (2 * pi)" "\<not> pi < - (2 * pi)" "\<not> 2 * pi < pi / 2"
  "\<not> 2 * pi < pi" "\<not> pi / 2 < 0" "\<not> pi < pi / 2" "\<not> 0 < - (2 * pi)" "\<not> 2 * pi < 0"
  using pi_gt_zero by linarith+

lemma harmonic_equator:
  "sph_harmonic lpmv_ref 1 0 [(0, Some (pi / 2)), (pi / 2, Some (pi / 2)), (pi, Some (pi / 2))]
   = Inr [Some 0, Some 0, Some 0]"
  using pi_cmp by (simp add: sph_harmonic_def lpmv_ref_values)

lemma alegendre_equator: "alegendre_deriv lpmv_ref 1 0 0 = Some 1"
  by (simp add: alegendre_deriv_def lpmv_ref_values np_div_def)

lemma grad_in_row_equator:
  "grad_in_row lpmv_ref 1 0 (1, az, Some (pi / 2)) (Some 0) (Some 0)
   = (Some 0, Some 0, Some (- complex_of_real (sqrt (3 / (4 * pi)))))"
  by (simp add: grad_in_row_def np_pow_def np_divo_def np_div_def cscale_def lift2_def
      alegendre_equator)

lemma cart_row_equator:
  "sph_to_cart_row (1, az, Some (pi / 2))
     (get_real_grad_row 0 (Some 0, Some 0, Some (- complex_of_real (sqrt (3 / (4 * pi))))))
   = (Some 0, Some 0, Some (sqrt (3 / (4 * pi))))"
  by (simp add: sph_to_cart_row_def get_real_grad_row_def lift2_def Let_def)

lemma grad_in_equator:
  "grad_in_components lpmv_ref 1 0
     [(1, 0, Some (pi / 2)), (1, pi / 2, Some (pi / 2)), (1, pi, Some (pi / 2))]
   = Inr [(Some 0, Some 0, Some (sqrt (3 / (4 * pi)))),
          (Some 0, Some 0, Some (sqrt (3 / (4 * pi)))),
          (Some 0, Some 0, Some (sqrt (3 / (4 * pi))))]"
  by (simp add: grad_in_components_def harmonic_equator get_real_grad_def
      sph_to_cart_partials_def grad_in_row_equator cart_row_equator)

lemma ring_scaled_entries:
  fixes n0 n1 n2 :: vec3
  defines "coils \<equiv>
     [\<lparr>chname = ''MEG0111'', coil_class = 1.0, int_points = [((1, 0, 0), n0, 1)]\<rparr>,
      \<lparr>chname = ''MEG0112'', coil_class = 0.0, int_points = [((0, 1, 0), n1, 1)]\<rparr>,
      \<lparr>chname = ''MEG0113'', coil_class = 0.0, int_points = [((- 1, 0, 0), n2, 1)]\<rparr>]"
  assumes M: "sss_scaled (grad_in_components lpmv_ref) (0, 0, 0) coils 1 = Inr M"
  shows "length M = 3
         \<and> M ! 0 ! 1 = Some (- (sqrt (3 / (4 * pi)) * snd (snd n0)) * 100)
         \<and> M ! 1 ! 1 = Some (- (sqrt (3 / (4 * pi)) * snd (snd n1)))
         \<and> M ! 2 ! 1 = Some (- (sqrt (3 / (4 * pi)) * snd (snd n2)))"
proof -
  let ?sp = "[(1, 0, Some (pi / 2)), (1, pi / 2, Some (pi / 2)), (1, pi, Some (pi / 2))] :: sph list"
  let ?nc = "[n0, n1, n2]"
  let ?wc = "[1, 1, 1] :: real list"
  let ?il = "[0, 1, 2, 3] :: nat list"
  let ?cs = "[100, 1, 1] :: real list"
  let ?K = "sqrt (3 / (4 * pi))"
  let ?gr = "[(Some 0, Some 0, Some ?K), (Some 0, Some 0, Some ?K), (Some 0, Some 0, Some ?K)]
             :: rgrad list"
  let ?F = "fill_side (grad_in_components lpmv_ref) 1 ?sp ?nc ?wc ?il ?cs 3"
  have "snd ?F = Inr M"
    using M unfolding sss_scaled_def concatenate_coils_def coils_def
    by (simp add: demo_sph[simplified] int_lens_of_def coil_scale_of_def eval_nat_numeral)
  then have F: "?F = (fst ?F, Inr M)" by (metis prod.collapse)
  have h: "(0::int) \<le> 1" "length ?il - 1 = 3" "length ?cs = 3" by simp_all
  note fc = fill_side_content[OF h F]
  have mem: "(1, 0) \<in> set (deg_order_pairs 1)" by (simp add: deg_order_pairs_mem)
  have ci: "nat (col_index 1 0) = 1" by (simp add: col_index_def)
  from fc mem grad_in_equator
  have ent: "\<forall>i<3. M ! i ! nat (col_index 1 0)
                = map_option (\<lambda>x. x * ?cs ! i) (int_pts_sum_of ?gr ?nc ?wc ?il i)"
    by blast
  have s0: "int_pts_sum_of ?gr ?nc ?wc ?il 0 = Some (- (?K * snd (snd n0)))"
    by (cases n0) (simp add: int_pts_sum_of_def weighted_dots_def py_slice_def np_sum_def
        lift2_def)
  have s1: "int_pts_sum_of ?gr ?nc ?wc ?il 1 = Some (- (?K * snd (snd n1)))"
    by (cases n1) (simp add: int_pts_sum_of_def weighted_dots_def py_slice_def np_sum_def
        lift2_def)
  have s2: "int_pts_sum_of ?gr ?nc ?wc ?il 2 = Some (- (?K * snd (snd n2)))"
    by (cases n2) (simp add: int_pts_sum_of_def weighted_dots_def py_slice_def np_sum_def
        lift2_def)
  have i0: "(0::nat) < 3" and i1: "(1::nat) < 3" and i2: "(2::nat) < 3" by simp_all
  from ent[rule_format, OF i0] ent[rule_format, OF i1] ent[rule_format, OF i2] fc
  show ?thesis unfolding ci s0 s1 s2 by simp
qed

lemma col_sumsq_three:
  assumes "length M = 3" "M ! 0 ! c = Some a" "M ! 1 ! c = Some b" "M ! 2 ! c = Some d"
  shows "col_sumsq M c = Some (a * a + b * b + d * d)"
proof -
  from assms(1) obtain x y z where M: "M = [x, y, z]"
    by (auto simp: length_Suc_conv eval_nat_numeral)
  have "col_sumsq [x, y, z] c = Some (a * a + b * b + d * d)"
    using assms(2-4) unfolding M by (simp add: col_sumsq_def np_sum_def lift2_def)
  then have "col_sumsq M c = Some (a * a + b * b + d * d)" unfolding M .
  then show ?thesis .
qed

lemma nan_not_unit:
  assumes "nan_column S c" "S \<noteq> []"
  shows "\<not> unit_column S c"
proof -
  from assms obtain row rest where S: "S = row # rest" and "row ! c = None"
    by (cases S) (auto simp: nan_column_def)
  then show ?thesis by (simp add: unit_column_def)
qed

lemma demo_z_basis_ok:
  "\<exists>wl S_in S_out. sss_basis lpmv_ref (0, 0, 0) demo_coils_z 1 0 = (wl, Inr (S_in, S_out))
     \<and> length S_in = 3 \<and> length S_out = 3"
proof -
  have n: "length demo_coils_z = 3" by (simp add: demo_coils_z_def)
  have "get_num_moments 1 0 \<le> int (length demo_coils_z)"
    by (simp add: get_num_moments_def n)
  from sss_basis_ok[OF _ _ this, of lpmv_ref "(0, 0, 0)"] show ?thesis unfolding n by auto
qed

text \<open>On the polar axis the sine of the polar angle is zero: the azimuthal component of
  the gradient is a quotient by zero, and every Cartesian component of the gradient at the
  point is NaN, for every degree and order.\<close>

lemma sph_harmonic_length:
  assumes "sph_harmonic lpmv d m angles = Inr ys"
  shows "length ys = length angles"
  using assms by (auto simp: sph_harmonic_def split: if_splits)

lemma cart_row_polar_axis:
  "sph_to_cart_row (rad, az, Some 0) (get_real_grad_row m (g_rad, None, g_pol))
   = (None, None, None)"
  by (simp add: sph_to_cart_row_def get_real_grad_row_def lift2_def Let_def
      split: option.splits)

lemma grad_in_row_polar_axis:
  "\<exists>g_rad g_pol. grad_in_row lpmv d m (rad, az, Some 0) y1 y2 = (g_rad, None, g_pol)"
  by (simp add: grad_in_row_def np_divo_def np_div_def cscale_def lift2_def Let_def
      split: option.splits)

lemma grad_out_row_polar_axis:
  "\<exists>g_rad g_pol. grad_out_row lpmv d m (rad, az, Some 0) y1 y2 = (g_rad, None, g_pol)"
  by (simp add: grad_out_row_def np_divo_def np_div_def cscale_def lift2_def Let_def
      split: option.splits)

lemma grad_in_polar_axis:
  assumes "grad_in_components lpmv d m pts = Inr gr" "i < length pts"
    and "pts ! i = (rad, az, Some 0)"
  shows "length gr = length pts \<and> gr ! i = (None, None, None)"
proof -
  from assms(1) obtain ys where ys: "sph_harmonic lpmv d m (map snd pts) = Inr ys"
    and gr: "gr = sph_to_cart_partials pts
                    (get_real_grad
                       (map (\<lambda>(pt, y1, y2). grad_in_row lpmv d m pt y1 y2)
                          (zip pts (zip ys ys))) m)"
    by (auto simp: grad_in_components_def split: sum.splits)
  from sph_harmonic_length[OF ys] have l: "length ys = length pts" by simp
  let ?raw = "map (\<lambda>(pt, y1, y2). grad_in_row lpmv d m pt y1 y2) (zip pts (zip ys ys))"
  have lr: "length (get_real_grad ?raw m) = length pts" using l by (simp add: get_real_grad_def)
  have len: "length gr = length pts" unfolding gr sph_to_cart_partials_def using lr by simp
  have "gr ! i = sph_to_cart_row (pts ! i) (get_real_grad ?raw m ! i)"
    unfolding gr sph_to_cart_partials_def using lr assms(2) by (simp add: nth_append)
  also have "get_real_grad ?raw m ! i
             = get_real_grad_row m (grad_in_row lpmv d m (pts ! i) (ys ! i) (ys ! i))"
    using l assms(2) by (simp add: get_real_grad_def)
  finally have e: "gr ! i = sph_to_cart_row (rad, az, Some 0)
           (get_real_grad_row m (grad_in_row lpmv d m (rad, az, Some 0) (ys ! i) (ys ! i)))"
    unfolding assms(3) .
  from grad_in_row_polar_axis[of lpmv d m rad az "ys ! i" "ys ! i"] obtain a b where
    "grad_in_row lpmv d m (rad, az, Some 0) (ys ! i) (ys ! i) = (a, None, b)" by blast
  with e cart_row_polar_axis have "gr ! i = (None, None, None)" by simp
  with len show ?thesis by simp
qed

lemma grad_out_polar_axis:
  assumes "grad_out_components lpmv d m pts = Inr gr" "i < length pts"
    and "pts ! i = (rad, az, Some 0)"
  shows "length gr = length pts \<and> gr ! i = (None, None, None)"
proof -
  from assms(1) obtain ys where ys: "sph_harmonic lpmv d m (map snd pts) = Inr ys"
    and gr: "gr = sph_to_cart_partials pts
                    (get_real_grad
                       (map (\<lambda>(pt, y1, y2). grad_out_row lpmv d m pt y1 y2)
                          (zip pts (zip ys ys))) m)"
    by (auto simp: grad_out_components_def split: sum.splits)
  from sph_harmonic_length[OF ys] have l: "length ys = length pts" by simp
  let ?raw = "map (\<lambda>(pt, y1, y2). grad_out_row lpmv d m pt y1 y2) (zip pts (zip ys ys))"
  have lr: "length (get_real_grad ?raw m) = length pts" using l by (simp add: get_real_grad_def)
  have len: "length gr = length pts" unfolding gr sph_to_cart_partials_def using lr by simp
  have "gr ! i = sph_to_cart_row (pts ! i) (get_real_grad ?raw m ! i)"
    unfolding gr sph_to_cart_partials_def using lr assms(2) by (simp add: nth_append)
  also have "get_real_grad ?raw m ! i
             = get_real_grad_row m (grad_out_row lpmv d m (pts ! i) (ys ! i) (ys ! i))"
    using l assms(2) by (simp add: get_real_grad_def)
  finally have e: "gr ! i = sph_to_cart_row (rad, az, Some 0)
           (get_real_grad_row m (grad_out_row lpmv d m (rad, az, Some 0) (ys ! i) (ys ! i)))"
    unfolding assms(3) .
  from grad_out_row_polar_axis[of lpmv d m rad az "ys ! i" "ys ! i"] obtain a b where
    "grad_out_row lpmv d m (rad, az, Some 0) (ys ! i) (ys ! i) = (a, None, b)" by blast
  with e cart_row_polar_axis have "gr ! i = (None, None, None)" by simp
  with len show ?thesis by simp
qed


lemma axis_sph:
  "map cart_to_sph_pt (map (\<lambda>p. vsub p (0, 0, 0)) [(0, 0, 1), (0, 1, 0), (- 1, 0, 0)])
   = [(1, 0, Some 0), (1, pi / 2, Some (pi / 2)), (1, pi, Some (pi / 2))]"
  by (simp add: vsub_def cart_to_sph_pt_def vnorm_def arctan2_def np_div_def)

lemma int_pts_sum_first_nan:
  assumes "length gr = 3" "gr ! 0 = (None, None, None)"
  shows "int_pts_sum_of gr [n0, n1, n2] [w0, w1, w2] [0, 1, 2, 3] 0 = None"
proof -
  from assms(1) obtain a b c where gr: "gr = [a, b, c]"
    by (auto simp: length_Suc_conv eval_nat_numeral)
  with assms(2) have a: "a = (None, None, None)" by simp
  show ?thesis unfolding gr a
    by (cases n0) (simp add: int_pts_sum_of_def weighted_dots_def py_slice_def np_sum_def
        lift2_def)
qed

lemma axis_scaled_nan:
  assumes L: "0 \<le> L"
    and M: "sss_scaled g (0, 0, 0) demo_coils_axis L = Inr M"
    and g: "\<And>d m gr. g d m [(1, 0, Some 0), (1, pi / 2, Some (pi / 2)), (1, pi, Some (pi / 2))]
                = Inr gr \<Longrightarrow> length gr = 3 \<and> gr ! 0 = (None, None, None)"
    and ok: "\<forall>(d, m)\<in>set (deg_order_pairs L).
               \<exists>gr. g d m [(1, 0, Some 0), (1, pi / 2, Some (pi / 2)), (1, pi, Some (pi / 2))]
                 = Inr gr"
    and c: "c < nat (basis_cols L)"
  shows "col_sumsq M c = None"
proof -
  let ?sp = "[(1, 0, Some 0), (1, pi / 2, Some (pi / 2)), (1, pi, Some (pi / 2))] :: sph list"
  let ?nc = "[(0, 0, 1), (0, 1, 0), (- 1, 0, 0)] :: vec3 list"
  let ?wc = "[1, 1, 1] :: real list"
  let ?il = "[0, 1, 2, 3] :: nat list"
  let ?cs = "[100, 1, 1] :: real list"
  let ?F = "fill_side g L ?sp ?nc ?wc ?il ?cs 3"
  have "snd ?F = Inr M"
    using M unfolding sss_scaled_def concatenate_coils_def demo_coils_axis_def
    by (simp add: axis_sph[simplified] int_lens_of_def coil_scale_of_def eval_nat_numeral)
  then have F: "?F = (fst ?F, Inr M)" by (metis prod.collapse)
  have h: "length ?il - 1 = 3" "length ?cs = 3" by simp_all
  note fc = fill_side_content[OF L h F]
  from fc have l: "length M = 3" by blast
  have "int c \<in> set [0..basis_cols L - 1]" using c by simp
  then have "int c \<in> set (map (\<lambda>(d, m). col_index d m) (deg_order_pairs L))"
    unfolding cols_of_pairs[OF L] .
  then obtain d m where p: "(d, m) \<in> set (deg_order_pairs L)" and ci: "col_index d m = int c"
    by auto
  from ok p obtain gr where gr: "g d m ?sp = Inr gr" by blast
  from fc p gr have "\<forall>i<3. M ! i ! nat (col_index d m)
                 = map_option (\<lambda>x. x * ?cs ! i) (int_pts_sum_of gr ?nc ?wc ?il i)" by blast
  moreover have "(0::nat) < 3" by simp
  ultimately have "M ! 0 ! nat (col_index d m)
                 = map_option (\<lambda>x. x * ?cs ! 0) (int_pts_sum_of gr ?nc ?wc ?il 0)" by blast
  also from g[OF gr] have "int_pts_sum_of gr ?nc ?wc ?il 0 = None"
    by (intro int_pts_sum_first_nan) simp_all
  finally have "M ! 0 ! c = None" unfolding ci by simp
  moreover from l have "M ! 0 \<in> set M" by (intro nth_mem) simp
  ultimately show ?thesis unfolding col_sumsq_None_iff by blast
qed

lemma axis_basis_ok:
  "\<exists>wl S_in S_out. sss_basis lpmv_ref (0, 0, 0) demo_coils_axis 1 0 = (wl, Inr (S_in, S_out))
     \<and> length S_in = 3 \<and> length S_out = 3"
proof -
  have n: "length demo_coils_axis = 3" by (simp add: demo_coils_axis_def)
  have "get_num_moments 1 0 \<le> int (length demo_coils_axis)"
    by (simp add: get_num_moments_def n)
  from sss_basis_ok[OF _ _ this, of lpmv_ref "(0, 0, 0)"] show ?thesis unfolding n by auto
qed

lemma axis_columns_nan:
  assumes ok: "sss_basis lpmv_ref (0, 0, 0) demo_coils_axis 1 0 = (wl, Inr (S_in, S_out))"
    and c: "c < 3"
  shows "nan_column S_in c"
proof -
  let ?sp = "[(1, 0, Some 0), (1, pi / 2, Some (pi / 2)), (1, pi, Some (pi / 2))] :: sph list"
  have h: "(0::int) \<le> 1" "(0::int) \<le> 0" by simp_all
  from sss_basis_scaled[OF h ok] obtain M_in where
    mi: "sss_scaled (grad_in_components lpmv_ref) (0, 0, 0) demo_coils_axis 1 = Inr M_in"
    and si: "S_in = normalize_cols (nat (basis_cols 1)) M_in" by blast
  have c': "c < nat (basis_cols 1)" using c by (simp add: basis_cols_def)
  have g: "length gr = 3 \<and> gr ! 0 = (None, None, None)"
    if "grad_in_components lpmv_ref d m ?sp = Inr gr" for d m gr
    using grad_in_polar_axis[OF that, of 0 1 0] by simp
  have gok: "\<forall>(d, m)\<in>set (deg_order_pairs 1). \<exists>gr. grad_in_components lpmv_ref d m ?sp = Inr gr"
  proof (clarify)
    fix d m assume "(d, m) \<in> set (deg_order_pairs 1)"
    then have "\<bar>m\<bar> \<le> d" unfolding deg_order_pairs_mem by linarith
    from grad_in_components_ok[OF this, of lpmv_ref "[(0, 0, 1), (0, 1, 0), (- 1, 0, 0)]"]
    show "\<exists>gr. grad_in_components lpmv_ref d m ?sp = Inr gr"
      using axis_sph by (simp add: vsub_def)
  qed
  from axis_scaled_nan[OF h(1) mi g gok c'] have n: "col_sumsq M_in c = None" .
  from sss_scaled_shape[OF h(1) mi]
  have ri: "\<forall>row\<in>set M_in. length row = nat (basis_cols 1)" by simp
  from normalize_column[OF ri c', folded si] n show ?thesis by simp
qed

text \<open>
  Claim C2 says that every column of both matrices that \<open>_sss_basis\<close> returns has unit
  Euclidean norm. For three sensors of which one has its integration point on the polar
  axis through the origin, the sine of the polar angle of that point is zero, line 280
  divides by it, and the entry of the sensor is NaN in every column; so is the norm of
  every column, and after the division of line 170 every entry of the internal matrix.
\<close>

theorem basis_unit_norm_counterexample:
  "get_num_moments 1 0 \<le> int (length demo_coils_axis)
   \<and> \<not> isl (snd (sss_basis lpmv_ref (0, 0, 0) demo_coils_axis 1 0))
   \<and> nan_column (fst (projr (snd (sss_basis lpmv_ref (0, 0, 0) demo_coils_axis 1 0)))) 0
   \<and> nan_column (fst (projr (snd (sss_basis lpmv_ref (0, 0, 0) demo_coils_axis 1 0)))) 1
   \<and> nan_column (fst (projr (snd (sss_basis lpmv_ref (0, 0, 0) demo_coils_axis 1 0)))) 2
   \<and> \<not> unit_column (fst (projr (snd (sss_basis lpmv_ref (0, 0, 0) demo_coils_axis 1 0)))) 1"
proof -
  from axis_basis_ok obtain wl S_in S_out where
    ok: "sss_basis lpmv_ref (0, 0, 0) demo_coils_axis 1 0 = (wl, Inr (S_in, S_out))"
    and l: "length S_in = 3" by blast
  have n: "nan_column S_in 0" "nan_column S_in 1" "nan_column S_in 2"
    using axis_columns_nan[OF ok] by simp_all
  moreover from l have "S_in \<noteq> []" by auto
  ultimately have "\<not> unit_column S_in 1" using nan_not_unit by blast
  moreover have "get_num_moments 1 0 \<le> int (length demo_coils_axis)"
    by (simp add: get_num_moments_def demo_coils_axis_def)
  ultimately show ?thesis using n unfolding ok by simp
qed

text \<open>
  Claim C2, amended. For every call of \<open>_sss_basis\<close> with non-negative orders that
  returns, every column of both matrices either has unit Euclidean norm or consists of NaN
  only. The norm is taken of the matrix that holds, for every sensor and every degree and
  order, the value of line 166 times the scale of the sensor's row (100 for the
  magnetometers, coil class 1.0, and 1 otherwise); the column is NaN exactly when that
  scaled column has a NaN entry or is zero throughout, and has unit norm otherwise.
\<close>

theorem basis_columns_unit_or_nan:
  assumes "0 \<le> int_order" "0 \<le> ext_order"
    and "sss_basis lpmv origin coils int_order ext_order = (wl, Inr (S_in, S_out))"
  shows "\<exists>M_in M_out.
           sss_scaled (grad_in_components lpmv) origin coils int_order = Inr M_in
         \<and> sss_scaled (grad_out_components lpmv) origin coils ext_order = Inr M_out
         \<and> written_cells (grad_in_components lpmv) origin coils int_order M_in
         \<and> written_cells (grad_out_components lpmv) origin coils ext_order M_out
         \<and> (\<forall>c<nat (basis_cols int_order).
               if col_sumsq M_in c = None \<or> col_sumsq M_in c = Some 0
               then nan_column S_in c else unit_column S_in c)
         \<and> (\<forall>c<nat (basis_cols ext_order).
               if col_sumsq M_out c = None \<or> col_sumsq M_out c = Some 0
               then nan_column S_out c else unit_column S_out c)"
proof -
  from sss_basis_scaled[OF assms] obtain M_in M_out where
    mi: "sss_scaled (grad_in_components lpmv) origin coils int_order = Inr M_in"
    and mo: "sss_scaled (grad_out_components lpmv) origin coils ext_order = Inr M_out"
    and si: "S_in = normalize_cols (nat (basis_cols int_order)) M_in"
    and so: "S_out = normalize_cols (nat (basis_cols ext_order)) M_out" by blast
  note wi = sss_scaled_written_in[OF assms(1) mi]
  note wo = sss_scaled_written_out[OF assms(2) mo]
  from sss_scaled_shape[OF assms(1) mi]
  have ri: "\<forall>row\<in>set M_in. length row = nat (basis_cols int_order)" by simp
  from sss_scaled_shape[OF assms(2) mo]
  have ro: "\<forall>row\<in>set M_out. length row = nat (basis_cols ext_order)" by simp
  have a: "\<forall>c<nat (basis_cols int_order).
               if col_sumsq M_in c = None \<or> col_sumsq M_in c = Some 0
               then nan_column S_in c else unit_column S_in c"
    unfolding si using normalize_column[OF ri] by blast
  have b: "\<forall>c<nat (basis_cols ext_order).
               if col_sumsq M_out c = None \<or> col_sumsq M_out c = Some 0
               then nan_column S_out c else unit_column S_out c"
    unfolding so using normalize_column[OF ro] by blast
  show ?thesis using mi mo wi wo a b by blast
qed

theorem basis_columns_unit_or_nan_witness:
  "(0::int) \<le> 1 \<and> (0::int) \<le> 0
   \<and> (\<exists>wl S_in S_out M_in M_out.
         sss_basis lpmv_ref (0, 0, 0) demo_coils_z 1 0 = (wl, Inr (S_in, S_out))
         \<and> sss_scaled (grad_in_components lpmv_ref) (0, 0, 0) demo_coils_z 1 = Inr M_in
         \<and> sss_scaled (grad_out_components lpmv_ref) (0, 0, 0) demo_coils_z 0 = Inr M_out
         \<and> written_cells (grad_in_components lpmv_ref) (0, 0, 0) demo_coils_z 1 M_in
         \<and> written_cells (grad_out_components lpmv_ref) (0, 0, 0) demo_coils_z 0 M_out
         \<and> M_in ! 0 ! 1 = Some (- (sqrt (3 / (4 * pi)) * 100))
         \<and> M_in ! 1 ! 1 = Some (- sqrt (3 / (4 * pi)))
         \<and> M_in ! 2 ! 1 = Some (- sqrt (3 / (4 * pi)))
         \<and> col_sumsq M_in 1 \<noteq> None \<and> col_sumsq M_in 1 \<noteq> Some 0
         \<and> unit_column S_in 1)"
proof -
  have h: "(0::int) \<le> 1" "(0::int) \<le> 0" by simp_all
  from demo_z_basis_ok obtain wl S_in S_out where
    ok: "sss_basis lpmv_ref (0, 0, 0) demo_coils_z 1 0 = (wl, Inr (S_in, S_out))" by blast
  from basis_columns_unit_or_nan[OF h ok] obtain M_in M_out where
    m: "sss_scaled (grad_in_components lpmv_ref) (0, 0, 0) demo_coils_z 1 = Inr M_in"
       "sss_scaled (grad_out_components lpmv_ref) (0, 0, 0) demo_coils_z 0 = Inr M_out"
    and w: "written_cells (grad_in_components lpmv_ref) (0, 0, 0) demo_coils_z 1 M_in"
       "written_cells (grad_out_components lpmv_ref) (0, 0, 0) demo_coils_z 0 M_out"
    and c: "\<forall>c<nat (basis_cols 1).
               if col_sumsq M_in c = None \<or> col_sumsq M_in c = Some 0
               then nan_column S_in c else unit_column S_in c" by blast
  note en = ring_scaled_entries[OF m(1)[unfolded demo_coils_z_def]]
  from en have e: "M_in ! 0 ! 1 = Some (- (sqrt (3 / (4 * pi)) * 100))"
    "M_in ! 1 ! 1 = Some (- sqrt (3 / (4 * pi)))"
    "M_in ! 2 ! 1 = Some (- sqrt (3 / (4 * pi)))" by simp_all
  from en have l: "length M_in = 3" by simp
  let ?K = "sqrt (3 / (4 * pi))"
  note cs = col_sumsq_three[OF l e]
  have "0 < ?K" using pi_gt_zero by simp
  then have "0 < ?K * ?K" by simp
  then have pos: "- (?K * 100) * - (?K * 100) + - ?K * - ?K + - ?K * - ?K \<noteq> 0"
    by (simp add: add_pos_pos)
  have n: "col_sumsq M_in 1 \<noteq> None" "col_sumsq M_in 1 \<noteq> Some 0"
    unfolding cs using pos by simp_all
  have c1: "(1::nat) < nat (basis_cols 1)" by (simp add: basis_cols_def)
  from c[rule_format, OF c1] have u: "unit_column S_in 1"
    by (simp only: n simp_thms if_False)
  show ?thesis using h ok m w e n u by blast
qed

subsection \<open>The projection\<close>

lemma finite_matrix_nth:
  assumes "finite_matrix S = Inr M"
  shows "length M = length S \<and> (\<forall>i<length S. length (M ! i) = length (S ! i)
           \<and> (\<forall>k<length (S ! i). S ! i ! k = Some (M ! i ! k)))"
proof -
  have those_nth: "length ys = length xs \<and> (\<forall>k<length xs. xs ! k = Some (ys ! k))"
    if "those xs = Some ys" for xs :: "'a option list" and ys
    using that
  proof (induction xs arbitrary: ys)
    case Nil
    then show ?case by simp
  next
    case (Cons x xs)
    then show ?case by (auto split: option.splits simp: nth_Cons split: nat.splits)
  qed
  from assms have t: "those (map those S) = Some M"
    by (auto simp: finite_matrix_def split: option.splits)
  from those_nth[OF t] have l: "length M = length S"
    and r: "\<forall>i<length S. those (S ! i) = Some (M ! i)" by simp_all
  show ?thesis using l r those_nth by blast
qed

lemma np_dot_nth:
  assumes "i < length A" "j < m"
  shows "np_dot k m A B ! i ! j = (\<Sum>l<k. A ! i ! l * B ! l ! j)"
  using assms by (simp add: np_dot_def)

lemma np_dot_shape: "length (np_dot k m A B) = length A
    \<and> (\<forall>row\<in>set (np_dot k m A B). length row = m)"
  by (auto simp: np_dot_def)

lemma row_scale_nth:
  assumes "length cs = length data" "i < length data" "j < length (data ! i)"
  shows "row_scale data cs ! i ! j = data ! i ! j * cs ! i"
  using assms by (simp add: row_scale_def)

lemma row_unscale_nth:
  assumes "length cs = length recon" "i < length recon" "j < length (recon ! i)"
  shows "row_unscale recon cs ! i ! j = recon ! i ! j / cs ! i"
  using assms by (simp add: row_unscale_def)

lemma project_Inr:
  assumes "project pinv n_in nt S_in S_out data cs = Inr (nm, recon)"
  shows "\<exists>Si So. finite_matrix S_in = Inr Si \<and> finite_matrix S_out = Inr So
           \<and> (let pS = pinv (map2 (@) Si So) (1 / 10 ^ 15);
                    mm = np_dot (length (row_scale data cs)) nt pS (row_scale data cs)
                in nm = length pS \<and> n_in \<le> length pS
                   \<and> (\<forall>row\<in>set pS. length row = length (row_scale data cs))
                   \<and> recon = np_dot n_in nt Si (take n_in mm))"
  using assms
  by (auto simp: project_def Let_def np_dot_def list_all_iff split: sum.splits if_splits)

lemma reconstruct_entries:
  assumes d: "length data = n" and c: "length cs = n" and dr: "\<forall>row\<in>set data. length row = nt"
    and si: "length S_in = n"
    and rec: "reconstruct pinv n_in nt S_in S_out data cs = Inr out"
  shows "\<exists>Si So. finite_matrix S_in = Inr Si \<and> finite_matrix S_out = Inr So
           \<and> length out = n
           \<and> n_in \<le> length (pinv (map2 (@) Si So) (1 / 10 ^ 15))
           \<and> (\<forall>row\<in>set (pinv (map2 (@) Si So) (1 / 10 ^ 15)). length row = n)
           \<and> (\<forall>i<n. length (out ! i) = nt
                 \<and> (\<forall>j<nt. out ! i ! j
                       = (\<Sum>k<n_in. Si ! i ! k
                            * (\<Sum>l<n. pinv (map2 (@) Si So) (1 / 10 ^ 15) ! k ! l
                                       * (data ! l ! j * cs ! l))) / cs ! i))"
proof -
  from rec obtain nm recon where p: "project pinv n_in nt S_in S_out data cs = Inr (nm, recon)"
    and out: "out = row_unscale recon cs"
    by (auto simp: reconstruct_def split: sum.splits)
  from project_Inr[OF p] obtain Si So where
    fi: "finite_matrix S_in = Inr Si" and fo: "finite_matrix S_out = Inr So"
    and rest: "let pS = pinv (map2 (@) Si So) (1 / 10 ^ 15);
                    mm = np_dot (length (row_scale data cs)) nt pS (row_scale data cs)
                in nm = length pS \<and> n_in \<le> length pS
                   \<and> (\<forall>row\<in>set pS. length row = length (row_scale data cs))
                   \<and> recon = np_dot n_in nt Si (take n_in mm)" by blast
  let ?pS = "pinv (map2 (@) Si So) (1 / 10 ^ 15)"
  let ?sc = "row_scale data cs"
  have lsc: "length ?sc = n" using d c by (simp add: row_scale_def)
  let ?mm = "np_dot n nt ?pS ?sc"
  from rest have nle: "n_in \<le> length ?pS" and prow: "\<forall>row\<in>set ?pS. length row = n"
    and recon: "recon = np_dot n_in nt Si (take n_in ?mm)"
    unfolding Let_def lsc by simp_all
  from finite_matrix_nth[OF fi] si have lSi: "length Si = n" by simp
  have lrec: "length recon = n" unfolding recon using np_dot_shape lSi by metis
  have rrec: "\<forall>row\<in>set recon. length row = nt" unfolding recon using np_dot_shape by metis
  have lout: "length out = n" unfolding out row_unscale_def using lrec c by simp
  have ent: "length (out ! i) = nt \<and> (\<forall>j<nt. out ! i ! j
                       = (\<Sum>k<n_in. Si ! i ! k
                            * (\<Sum>l<n. ?pS ! k ! l * (data ! l ! j * cs ! l))) / cs ! i)"
    if i: "i < n" for i
  proof -
    have li: "length (recon ! i) = nt" using rrec lrec i by simp
    have lo: "length (out ! i) = nt" unfolding out using li lrec c i by (simp add: row_unscale_def)
    have "out ! i ! j = (\<Sum>k<n_in. Si ! i ! k
                            * (\<Sum>l<n. ?pS ! k ! l * (data ! l ! j * cs ! l))) / cs ! i"
      if j: "j < nt" for j
    proof -
      have "out ! i ! j = recon ! i ! j / cs ! i"
        unfolding out using row_unscale_nth[of cs recon i j] c lrec i li j by simp
      also have "recon ! i ! j = (\<Sum>k<n_in. Si ! i ! k * take n_in ?mm ! k ! j)"
        unfolding recon using np_dot_nth[of i Si j nt n_in] lSi i j by simp
      also have "\<dots> = (\<Sum>k<n_in. Si ! i ! k
                            * (\<Sum>l<n. ?pS ! k ! l * (data ! l ! j * cs ! l)))"
      proof (rule sum.cong[OF refl])
        fix k assume "k \<in> {..<n_in}"
        then have k: "k < n_in" by simp
        then have kp: "k < length ?pS" using nle by simp
        have "take n_in ?mm ! k ! j = ?mm ! k ! j" using k by simp
        also have "\<dots> = (\<Sum>l<n. ?pS ! k ! l * ?sc ! l ! j)"
          using np_dot_nth[OF kp j] by simp
        also have "\<dots> = (\<Sum>l<n. ?pS ! k ! l * (data ! l ! j * cs ! l))"
        proof (rule sum.cong[OF refl])
          fix l assume "l \<in> {..<n}"
          then have l: "l < length data" using d by simp
          then have "j < length (data ! l)" using dr j by simp
          from row_scale_nth[OF _ l this] c d
          show "?pS ! k ! l * ?sc ! l ! j = ?pS ! k ! l * (data ! l ! j * cs ! l)" by simp
        qed
        finally show "Si ! i ! k * take n_in ?mm ! k ! j
              = Si ! i ! k * (\<Sum>l<n. ?pS ! k ! l * (data ! l ! j * cs ! l))" by simp
      qed
      finally show ?thesis .
    qed
    with lo show ?thesis by blast
  qed
  show ?thesis using fi fo lout nle prow ent by blast
qed

lemma demo_reconstruct:
  "reconstruct (\<lambda>M c. transpose M) 1 2 [[Some 1], [Some 0]] [[Some 0], [Some 1]]
     [[1, 2], [3, 4]] [100, 1] = Inr [[1, 2], [0, 0]]"
  by (simp add: reconstruct_def project_def finite_matrix_def row_scale_def row_unscale_def
      np_dot_def Let_def lessThan_Suc eval_nat_numeral transpose.simps)

text \<open>
  Claim C1. For every pair of basis matrices and every data matrix on which lines 87 to 99
  return, the moments are \<open>pinv\<close> of the combined basis (cutoff \<open>1e-15\<close>) applied to the
  data scaled by the coil scale, the reconstruction multiplies \<open>S_in\<close> with exactly the
  leading \<open>S_in.shape[1]\<close> rows of the moments, and the rows are divided by the same coil
  scale: entry \<open>(i, j)\<close> of the result is
  \<open>(1 / coil_scale[i]) * \<Sum>k<n_in. S_in[i, k] * (\<Sum>l<n. pinv(S_tot)[k, l] * (coil_scale[l] * data[l, j]))\<close>.
\<close>

theorem reconstruction_formula:
  assumes "length data = n" "length coil_scale = n" "\<forall>row\<in>set data. length row = nt"
    and "length S_in = n" "\<forall>row\<in>set S_in. length row = n_in"
    and "reconstruct pinv n_in nt S_in S_out data coil_scale = Inr out"
  shows "\<exists>Si So. finite_matrix S_in = Inr Si \<and> finite_matrix S_out = Inr So
           \<and> length out = n
           \<and> (\<forall>i<n. length (out ! i) = nt
                 \<and> (\<forall>j<nt. out ! i ! j
                       = (1 / coil_scale ! i)
                         * (\<Sum>k<n_in. Si ! i ! k
                              * (\<Sum>l<n. pinv (map2 (@) Si So) (1 / 10 ^ 15) ! k ! l
                                         * (coil_scale ! l * data ! l ! j)))))"
proof -
  from reconstruct_entries[OF assms(1,2,3,4,6)] obtain Si So where
    f: "finite_matrix S_in = Inr Si" "finite_matrix S_out = Inr So" "length out = n"
    and e: "\<forall>i<n. length (out ! i) = nt
                 \<and> (\<forall>j<nt. out ! i ! j
                       = (\<Sum>k<n_in. Si ! i ! k
                            * (\<Sum>l<n. pinv (map2 (@) Si So) (1 / 10 ^ 15) ! k ! l
                                       * (data ! l ! j * coil_scale ! l))) / coil_scale ! i)"
    by blast
  have "\<forall>i<n. length (out ! i) = nt
                 \<and> (\<forall>j<nt. out ! i ! j
                       = (1 / coil_scale ! i)
                         * (\<Sum>k<n_in. Si ! i ! k
                              * (\<Sum>l<n. pinv (map2 (@) Si So) (1 / 10 ^ 15) ! k ! l
                                         * (coil_scale ! l * data ! l ! j))))"
    using e by (simp add: mult.commute)
  with f show ?thesis by blast
qed

theorem reconstruction_formula_witness:
  "length [[1, 2], [3, 4 :: real]] = 2 \<and> length [100, 1 :: real] = 2
   \<and> list_all (\<lambda>row. length row = 2) [[1, 2], [3, 4 :: real]]
   \<and> length [[Some 1], [Some (0 :: real)]] = 2
   \<and> list_all (\<lambda>row. length row = 1) [[Some 1], [Some (0 :: real)]]
   \<and> reconstruct (\<lambda>M c. transpose M) 1 2 [[Some 1], [Some 0]] [[Some 0], [Some 1]]
         [[1, 2], [3, 4]] [100, 1] = Inr [[1, 2], [0, 0]]
   \<and> (\<exists>Si So. finite_matrix [[Some 1], [Some 0]] = Inr Si
         \<and> finite_matrix [[Some 0], [Some 1]] = Inr So
         \<and> (\<forall>i<2. \<forall>j<2. [[1, 2], [0, 0]] ! i ! j
               = (1 / [100, 1] ! i)
                 * (\<Sum>k<1. Si ! i ! k
                      * (\<Sum>l<2. (\<lambda>M c. transpose M) (map2 (@) Si So) (1 / 10 ^ 15) ! k ! l
                                 * ([100, 1] ! l * [[1, 2], [3, 4]] ! l ! j)))))"
proof -
  have h: "length [[1, 2], [3, 4 :: real]] = 2" "length [100, 1 :: real] = 2"
    "\<forall>row\<in>set [[1, 2], [3, 4 :: real]]. length row = 2"
    "length [[Some 1], [Some (0 :: real)]] = 2"
    "\<forall>row\<in>set [[Some 1], [Some (0 :: real)]]. length row = 1"
    by simp_all
  from reconstruction_formula[OF h demo_reconstruct]
  have "\<exists>Si So. finite_matrix [[Some 1], [Some 0]] = Inr Si
         \<and> finite_matrix [[Some 0], [Some 1]] = Inr So
         \<and> (\<forall>i<2. \<forall>j<2. [[1, 2], [0, 0]] ! i ! j
               = (1 / [100, 1] ! i)
                 * (\<Sum>k<1. Si ! i ! k
                      * (\<Sum>l<2. (\<lambda>M c. transpose M) (map2 (@) Si So) (1 / 10 ^ 15) ! k ! l
                                 * ([100, 1] ! l * [[1, 2], [3, 4]] ! l ! j))))"
    by blast
  moreover have "list_all (\<lambda>row. length row = 2) [[1, 2], [3, 4 :: real]]"
    "list_all (\<lambda>row. length row = 1) [[Some 1], [Some (0 :: real)]]" by simp_all
  ultimately show ?thesis using h(1,2,4) demo_reconstruct by blast
qed

subsection \<open>Projecting twice\<close>

lemma coil_scale_nonzero: "i < length coils \<Longrightarrow> coil_scale_of coils ! i \<noteq> 0"
  by (simp add: coil_scale_of_def)

lemma reconstruct_same_shape:
  assumes "reconstruct pinv n_in nt S_in S_out data cs = Inr out"
    and "length data' = length data"
  shows "\<exists>out'. reconstruct pinv n_in nt S_in S_out data' cs = Inr out'"
proof -
  have l: "length (row_scale data' cs) = length (row_scale data cs)"
    using assms(2) by (simp add: row_scale_def)
  have n: "length (np_dot (length (row_scale data cs)) nt P (row_scale data' cs))
           = length (np_dot (length (row_scale data cs)) nt P (row_scale data cs))" for P
    by (simp add: np_dot_def)
  show ?thesis using assms(1) l n
    by (auto simp: reconstruct_def project_def Let_def split: sum.splits if_splits)
qed

lemma kronecker_sum:
  fixes f :: "nat \<Rightarrow> real"
  assumes "k < n"
  shows "(\<Sum>k'<n. (if k = k' then 1 else 0) * f k') = f k"
proof -
  have "(\<Sum>k'<n. (if k = k' then 1 else 0) * f k') = (\<Sum>k'\<in>{..<n}. if k' = k then f k' else 0)"
    by (rule sum.cong) auto
  also have "\<dots> = f k" using assms by (simp add: sum.delta)
  finally show ?thesis .
qed

lemma block_collapse:
  fixes P S :: "nat \<Rightarrow> nat \<Rightarrow> real" and m :: "nat \<Rightarrow> real"
  assumes "\<forall>k'<n_in. (\<Sum>l<n. P k l * S l k') = (if k = k' then 1 else 0)" "k < n_in"
  shows "(\<Sum>l<n. P k l * (\<Sum>k'<n_in. S l k' * m k')) = m k"
proof -
  have "(\<Sum>l<n. P k l * (\<Sum>k'<n_in. S l k' * m k'))
        = (\<Sum>l<n. \<Sum>k'<n_in. P k l * S l k' * m k')"
    by (simp add: sum_distrib_left mult.assoc)
  also have "\<dots> = (\<Sum>k'<n_in. \<Sum>l<n. P k l * S l k' * m k')" by (rule sum.swap)
  also have "\<dots> = (\<Sum>k'<n_in. (\<Sum>l<n. P k l * S l k') * m k')"
    by (simp add: sum_distrib_right)
  also have "\<dots> = (\<Sum>k'<n_in. (if k = k' then 1 else 0) * m k')"
    by (rule sum.cong[OF refl]) (use assms(1) in simp)
  also have "\<dots> = m k" by (rule kronecker_sum[OF assms(2)])
  finally show ?thesis .
qed

lemma demo_scale: "coil_scale_of (take 2 demo_coils) = [100, 1]"
  by (simp add: demo_coils_def coil_scale_of_def)

text \<open>The basis of nine sensors that have the same integration point \<open>(1, 0, 0)\<close> and the
  same normal, for the orders 1 and 1: the gradients of the three harmonics of degree 1 at
  the point, the matrices before the division of line 170, whose nine rows are equal, and
  the two matrices returned, whose columns are constant.\<close>

lemma lpmv_ref_one: "lpmv_ref 1 1 x = - sqrt (1 - x ^ 2)"
  by (simp add: lpmv_ref_def)

lemma alegendre_equator_all:
  "alegendre_deriv lpmv_ref 1 1 0 = Some 0" "alegendre_deriv lpmv_ref 1 (- 1) 0 = Some 0"
  by (simp_all add: alegendre_deriv_def lpmv_ref_values lpmv_ref_one np_div_def)

lemma sqrt_8: "sqrt 8 = 2 * sqrt 2"
proof -
  have "sqrt 8 = sqrt (4 * 2)" by simp
  also have "\<dots> = 2 * sqrt 2" by (simp only: real_sqrt_mult real_sqrt_four)
  finally show ?thesis .
qed

lemma in_row_x:
  "sph_to_cart_row (1, 0, Some (pi / 2))
     (get_real_grad_row 0 (grad_in_row lpmv_ref 1 0 (1, 0, Some (pi / 2)) (Some 0) (Some 0)))
   = (Some 0, Some 0, Some (sqrt (3 / (4 * pi))))"
  "sph_to_cart_row (1, 0, Some (pi / 2))
     (get_real_grad_row 1 (grad_in_row lpmv_ref 1 1 (1, 0, Some (pi / 2))
        (Some (- complex_of_real (sqrt (3 / (8 * pi)))))
        (Some (- complex_of_real (sqrt (3 / (8 * pi)))))))
   = (Some (2 * (sqrt 2 * sqrt (3 / (8 * pi)))), Some 0, Some 0)"
  "sph_to_cart_row (1, 0, Some (pi / 2))
     (get_real_grad_row (- 1) (grad_in_row lpmv_ref 1 (- 1) (1, 0, Some (pi / 2))
        (Some (complex_of_real (sqrt (3 / (8 * pi)))))
        (Some (complex_of_real (sqrt (3 / (8 * pi)))))))
   = (Some 0, Some (- (sqrt 2 * sqrt (3 / (8 * pi)))), Some 0)"
  by (simp_all add: grad_in_row_def np_pow_def np_divo_def np_div_def cscale_def lift2_def
      alegendre_equator alegendre_equator_all sph_to_cart_row_def get_real_grad_row_def Let_def)

lemma out_row_x:
  "sph_to_cart_row (1, 0, Some (pi / 2))
     (get_real_grad_row 0 (grad_out_row lpmv_ref 1 0 (1, 0, Some (pi / 2)) (Some 0) (Some 0)))
   = (Some 0, Some 0, Some (sqrt (3 / (4 * pi))))"
  "sph_to_cart_row (1, 0, Some (pi / 2))
     (get_real_grad_row 1 (grad_out_row lpmv_ref 1 1 (1, 0, Some (pi / 2))
        (Some (- complex_of_real (sqrt (3 / (8 * pi)))))
        (Some (- complex_of_real (sqrt (3 / (8 * pi)))))))
   = (Some (- (sqrt 2 * sqrt (3 / (8 * pi)))), Some 0, Some 0)"
  "sph_to_cart_row (1, 0, Some (pi / 2))
     (get_real_grad_row (- 1) (grad_out_row lpmv_ref 1 (- 1) (1, 0, Some (pi / 2))
        (Some (complex_of_real (sqrt (3 / (8 * pi)))))
        (Some (complex_of_real (sqrt (3 / (8 * pi)))))))
   = (Some 0, Some (- (sqrt 2 * sqrt (3 / (8 * pi)))), Some 0)"
  by (simp_all add: grad_out_row_def np_pow_def np_divo_def np_div_def cscale_def lift2_def
      alegendre_equator alegendre_equator_all sph_to_cart_row_def get_real_grad_row_def Let_def)


lemma harmonic_same:
  "sph_harmonic lpmv_ref 1 0 (replicate n (0, Some (pi / 2))) = Inr (replicate n (Some 0))"
  "sph_harmonic lpmv_ref 1 1 (replicate n (0, Some (pi / 2)))
     = Inr (replicate n (Some (- complex_of_real (sqrt (3 / (8 * pi))))))"
  "sph_harmonic lpmv_ref 1 (- 1) (replicate n (0, Some (pi / 2)))
     = Inr (replicate n (Some (complex_of_real (sqrt (3 / (8 * pi))))))"
  using pi_cmp
  by (simp_all add: sph_harmonic_def list_ex_iff lpmv_ref_values lpmv_ref_one real_sqrt_divide
      real_sqrt_mult sqrt_8)

lemma grad_in_same:
  "grad_in_components lpmv_ref 1 0 (replicate n (1, 0, Some (pi / 2)))
   = Inr (replicate n (Some 0, Some 0, Some (sqrt (3 / (4 * pi)))))"
  "grad_in_components lpmv_ref 1 1 (replicate n (1, 0, Some (pi / 2)))
   = Inr (replicate n (Some (2 * (sqrt 2 * sqrt (3 / (8 * pi)))), Some 0, Some 0))"
  "grad_in_components lpmv_ref 1 (- 1) (replicate n (1, 0, Some (pi / 2)))
   = Inr (replicate n (Some 0, Some (- (sqrt 2 * sqrt (3 / (8 * pi)))), Some 0))"
  by (simp_all add: grad_in_components_def harmonic_same get_real_grad_def
      sph_to_cart_partials_def in_row_x)

lemma grad_out_same:
  "grad_out_components lpmv_ref 1 0 (replicate n (1, 0, Some (pi / 2)))
   = Inr (replicate n (Some 0, Some 0, Some (sqrt (3 / (4 * pi)))))"
  "grad_out_components lpmv_ref 1 1 (replicate n (1, 0, Some (pi / 2)))
   = Inr (replicate n (Some (- (sqrt 2 * sqrt (3 / (8 * pi)))), Some 0, Some 0))"
  "grad_out_components lpmv_ref 1 (- 1) (replicate n (1, 0, Some (pi / 2)))
   = Inr (replicate n (Some 0, Some (- (sqrt 2 * sqrt (3 / (8 * pi)))), Some 0))"
  by (simp_all add: grad_out_components_def harmonic_same get_real_grad_def
      sph_to_cart_partials_def out_row_x)

lemma concat_replicate_single: "concat (replicate n [x]) = replicate n x"
  by (induction n) simp_all

lemma cumsum_from_ones: "i < n \<Longrightarrow> cumsum_from acc (replicate n 1) ! i = acc + i + 1"
proof (induction n arbitrary: acc i)
  case 0
  then show ?case by simp
next
  case (Suc n)
  show ?case
  proof (cases i)
    case 0
    then show ?thesis by simp
  next
    case (Suc j)
    with Suc.prems have "j < n" by simp
    from Suc.IH[OF this, of "acc + 1"] Suc show ?thesis by simp
  qed
qed

lemma int_lens_ones: "i \<le> n \<Longrightarrow> int_lens_of (replicate n 1) ! i = i"
proof (cases i)
  case 0
  then show ?thesis by (simp add: int_lens_of_def)
next
  case (Suc j)
  assume "i \<le> n"
  with Suc have "j < n" by simp
  from cumsum_from_ones[OF this, of 0] Suc show ?thesis by (simp add: int_lens_of_def)
qed

lemma np_sum_single: "np_sum [x] = x"
  by (cases x) (simp_all add: np_sum_def lift2_def)

lemma int_pts_sum_same:
  assumes "i < n"
  shows "int_pts_sum_of (replicate n (Some gx, Some gy, Some gz)) (replicate n (nx, ny, nz))
           (replicate n 1) (int_lens_of (replicate n 1)) i
         = Some (- gx * nx + - gy * ny + - gz * nz)"
proof -
  have le: "i \<le> n" "i + 1 \<le> n" using assms by simp_all
  have "py_slice (replicate n v) i (i + 1) = [v]" for v :: npfloat
    using assms by (simp add: py_slice_def take_Suc_conv_app_nth)
  then show ?thesis
    unfolding int_pts_sum_of_def int_lens_ones[OF le(1)] int_lens_ones[OF le(2)]
    by (simp add: weighted_dots_def lift2_def np_sum_single)
qed


lemma same_sph: "cart_to_sph_pt (vsub (1, 0, 0) (0, 0, 0)) = (1, 0, Some (pi / 2))"
  by (simp add: vsub_def cart_to_sph_pt_def vnorm_def arctan2_def np_div_def)

lemma same_scaled_entry:
  assumes M: "sss_scaled g (0, 0, 0) demo_coils_same 1 = Inr M"
    and gr: "g 1 m (replicate 9 (1, 0, Some (pi / 2)))
             = Inr (replicate 9 (Some gx, Some gy, Some gz))"
    and m: "- 1 \<le> m" "m \<le> 1" and i: "i < 9"
  shows "M ! i ! nat (1 + m) = Some (- gx * (2 / 3) + - gy * (2 / 3) + - gz * (1 / 3))"
proof -
  let ?sp = "replicate 9 (1, 0, Some (pi / 2)) :: sph list"
  let ?nc = "replicate 9 (2 / 3, 2 / 3, 1 / 3) :: vec3 list"
  let ?wc = "replicate 9 1 :: real list"
  let ?il = "int_lens_of (replicate 9 1)"
  let ?cs = "replicate 9 1 :: real list"
  let ?F = "fill_side g 1 ?sp ?nc ?wc ?il ?cs 9"
  have "snd ?F = Inr M"
    using M unfolding sss_scaled_def concatenate_coils_def demo_coils_same_def
    by (simp add: same_sph concat_replicate_single coil_scale_of_def)
  then have F: "?F = (fst ?F, Inr M)" by (metis prod.collapse)
  have h: "(0::int) \<le> 1" "length ?il - 1 = 9" "length ?cs = 9"
    by (simp_all add: length_int_lens_of)
  note fc = fill_side_content[OF h F]
  have mem: "(1, m) \<in> set (deg_order_pairs 1)" using m by (simp add: deg_order_pairs_mem)
  have ci: "col_index 1 m = 1 + m" by (simp add: col_index_def)
  from fc mem gr i
  have "M ! i ! nat (col_index 1 m)
          = map_option (\<lambda>x. x * ?cs ! i)
              (int_pts_sum_of (replicate 9 (Some gx, Some gy, Some gz)) ?nc ?wc ?il i)"
    by blast
  then show ?thesis unfolding ci int_pts_sum_same[OF i] using i by simp
qed

lemma np_sum_replicate: "np_sum (replicate n (Some w)) = Some (real n * w)"
  by (induction n) (simp_all add: np_sum_def lift2_def algebra_simps)

lemma col_sumsq_const:
  assumes "length M = n" "\<forall>i<n. M ! i ! c = Some v"
  shows "col_sumsq M c = Some (real n * (v * v))"
proof -
  have "map (\<lambda>row. lift2 (*) (row ! c) (row ! c)) M = replicate n (Some (v * v))"
    using assms by (intro nth_equalityI) (simp_all add: lift2_def)
  then show ?thesis unfolding col_sumsq_def by (simp only: np_sum_replicate)
qed

lemma unit_of_nine:
  fixes v :: real
  shows "0 < v \<Longrightarrow> v / sqrt (9 * (v * v)) = 1 / 3"
    and "v < 0 \<Longrightarrow> v / sqrt (9 * (v * v)) = - 1 / 3"
proof -
  have s9: "sqrt 9 = 3" by (rule real_sqrt_unique) simp_all
  have e: "sqrt (9 * (v * v)) = 3 * \<bar>v\<bar>" by (simp add: real_sqrt_mult s9)
  show "0 < v \<Longrightarrow> v / sqrt (9 * (v * v)) = 1 / 3" unfolding e by simp
  show "v < 0 \<Longrightarrow> v / sqrt (9 * (v * v)) = - 1 / 3" unfolding e by simp
qed


lemma normalized_const:
  assumes rows: "\<forall>row\<in>set M. length row = ncols" and c: "c < ncols"
    and l: "length M = 9" and e: "\<forall>i<9. M ! i ! c = Some v" and v: "v \<noteq> 0" and i: "i < 9"
  shows "normalize_cols ncols M ! i ! c = Some (if 0 < v then 1 / 3 else - 1 / 3)"
proof -
  have i': "i < length M" using i l by simp
  have cs: "col_sumsq M c = Some (9 * (v * v))" using col_sumsq_const[OF l e] by simp
  have nz: "sqrt (9 * (v * v)) \<noteq> 0" using v by simp
  have "normalize_cols ncols M ! i ! c = Some (v / sqrt (9 * (v * v)))"
    unfolding normalize_cols_nth[OF rows i' c] cs using e i nz
    by (simp add: np_divo_def np_div_def)
  also have "v / sqrt (9 * (v * v)) = (if 0 < v then 1 / 3 else - 1 / 3)"
  proof (cases "0 < v")
    case True
    then show ?thesis using unit_of_nine(1) by simp
  next
    case False
    with v have "v < 0" by simp
    then show ?thesis using unit_of_nine(2) by simp
  qed
  finally show ?thesis .
qed

lemma three_entries:
  assumes "length row = 3" "row ! 0 = a" "row ! 1 = b" "row ! 2 = d"
  shows "row = [a, b, d]"
  using assms by (auto simp: length_Suc_conv eval_nat_numeral)

lemma rows_replicate:
  assumes "length S = n" "\<forall>i<n. S ! i = row"
  shows "S = replicate n row"
  using assms by (intro nth_equalityI) simp_all

lemma same_side:
  assumes M: "sss_scaled g (0, 0, 0) demo_coils_same 1 = Inr M"
    and g0: "g 1 (- 1) (replicate 9 (1, 0, Some (pi / 2)))
             = Inr (replicate 9 (Some x0, Some y0, Some z0))"
    and g1: "g 1 0 (replicate 9 (1, 0, Some (pi / 2)))
             = Inr (replicate 9 (Some x1, Some y1, Some z1))"
    and g2: "g 1 1 (replicate 9 (1, 0, Some (pi / 2)))
             = Inr (replicate 9 (Some x2, Some y2, Some z2))"
    and v0: "- x0 * (2 / 3) + - y0 * (2 / 3) + - z0 * (1 / 3) = v0" "v0 \<noteq> 0"
    and v1: "- x1 * (2 / 3) + - y1 * (2 / 3) + - z1 * (1 / 3) = v1" "v1 \<noteq> 0"
    and v2: "- x2 * (2 / 3) + - y2 * (2 / 3) + - z2 * (1 / 3) = v2" "v2 \<noteq> 0"
  shows "normalize_cols (nat (basis_cols 1)) M
         = replicate 9 [Some (if 0 < v0 then 1 / 3 else - 1 / 3),
                        Some (if 0 < v1 then 1 / 3 else - 1 / 3),
                        Some (if 0 < v2 then 1 / 3 else - 1 / 3)]"
proof -
  have h: "(0::int) \<le> 1" by simp
  have n3: "nat (basis_cols 1) = 3" by (simp add: basis_cols_def)
  from sss_scaled_shape[OF h M]
  have l: "length M = 9" and rows: "\<forall>row\<in>set M. length row = 3"
    by (simp_all add: demo_coils_same_def n3)
  have e0: "\<forall>i<9. M ! i ! 0 = Some v0"
    using same_scaled_entry[OF M g0] v0(1) by simp
  have e1: "\<forall>i<9. M ! i ! 1 = Some v1"
    using same_scaled_entry[OF M g1] v1(1) by simp
  have e2: "\<forall>i<9. M ! i ! 2 = Some v2"
    using same_scaled_entry[OF M g2] v2(1) by (simp add: eval_nat_numeral)
  let ?N = "normalize_cols 3 M"
  have lN: "length ?N = 9" using l by (simp add: normalize_cols_def)
  have rN: "length (?N ! i) = 3" if "i < 9" for i
    using normalize_cols_shape[OF rows] that lN by (metis nth_mem)
  have "?N ! i = [Some (if 0 < v0 then 1 / 3 else - 1 / 3),
                  Some (if 0 < v1 then 1 / 3 else - 1 / 3),
                  Some (if 0 < v2 then 1 / 3 else - 1 / 3)]" if i: "i < 9" for i
  proof -
    have n0: "?N ! i ! 0 = Some (if 0 < v0 then 1 / 3 else - 1 / 3)"
      by (rule normalized_const[OF rows _ l e0 v0(2) i]) simp
    have n1: "?N ! i ! 1 = Some (if 0 < v1 then 1 / 3 else - 1 / 3)"
      by (rule normalized_const[OF rows _ l e1 v1(2) i]) simp
    have n2: "?N ! i ! 2 = Some (if 0 < v2 then 1 / 3 else - 1 / 3)"
      by (rule normalized_const[OF rows _ l e2 v2(2) i]) simp
    show ?thesis by (rule three_entries[OF rN[OF i] n0 n1 n2])
  qed
  then show ?thesis unfolding n3 using lN by (intro rows_replicate) simp_all
qed


lemma same_basis:
  assumes ok: "sss_basis lpmv_ref (0, 0, 0) demo_coils_same 1 1 = (wl, Inr (S_in, S_out))"
  shows "S_in = replicate 9 [Some (1 / 3), Some (- 1 / 3), Some (- 1 / 3)]
         \<and> S_out = replicate 9 [Some (1 / 3), Some (- 1 / 3), Some (1 / 3)]"
proof -
  let ?q = "sqrt 2 * sqrt (3 / (8 * pi))"
  let ?K = "sqrt (3 / (4 * pi))"
  have q: "0 < ?q" and K: "0 < ?K" using pi_gt_zero by simp_all
  have h: "(0::int) \<le> 1" by simp
  from sss_basis_scaled[OF h h ok] obtain M_in M_out where
    mi: "sss_scaled (grad_in_components lpmv_ref) (0, 0, 0) demo_coils_same 1 = Inr M_in"
    and mo: "sss_scaled (grad_out_components lpmv_ref) (0, 0, 0) demo_coils_same 1 = Inr M_out"
    and si: "S_in = normalize_cols (nat (basis_cols 1)) M_in"
    and so: "S_out = normalize_cols (nat (basis_cols 1)) M_out" by blast
  have i0: "- 0 * (2 / 3) + - (- ?q) * (2 / 3) + - 0 * (1 / 3) = ?q * (2 / 3)" by simp
  have i1: "- 0 * (2 / 3) + - 0 * (2 / 3) + - ?K * (1 / 3) = - (?K / 3)" by simp
  have i2: "- (2 * ?q) * (2 / 3) + - 0 * (2 / 3) + - 0 * (1 / 3) = - (?q * (4 / 3))" by simp
  have o2: "- (- ?q) * (2 / 3) + - 0 * (2 / 3) + - 0 * (1 / 3) = ?q * (2 / 3)" by simp
  have p0: "?q * (2 / 3) \<noteq> 0" "0 < ?q * (2 / 3)" using q by linarith+
  have p1: "- (?K / 3) \<noteq> 0" "\<not> 0 < - (?K / 3)" using K by linarith+
  have p2: "- (?q * (4 / 3)) \<noteq> 0" "\<not> 0 < - (?q * (4 / 3))" using q by linarith+
  from same_side[OF mi grad_in_same(3)[of 9] grad_in_same(1)[of 9] grad_in_same(2)[of 9]
      i0 p0(1) i1 p1(1) i2 p2(1)]
  have a: "S_in = replicate 9 [Some (1 / 3), Some (- 1 / 3), Some (- 1 / 3)]"
    unfolding si by (simp only: p0(2) p1(2) p2(2) if_True if_False)
  from same_side[OF mo grad_out_same(3)[of 9] grad_out_same(1)[of 9] grad_out_same(2)[of 9]
      i0 p0(1) i1 p1(1) o2 p0(1)]
  have b: "S_out = replicate 9 [Some (1 / 3), Some (- 1 / 3), Some (1 / 3)]"
    unfolding so by (simp only: p0(2) p1(2) if_True if_False)
  from a b show ?thesis by (rule conjI)
qed

lemma same_basis_ok:
  "snd (sss_basis lpmv_ref (0, 0, 0) demo_coils_same 1 1)
   = Inr (replicate 9 [Some (1 / 3), Some (- 1 / 3), Some (- 1 / 3)],
          replicate 9 [Some (1 / 3), Some (- 1 / 3), Some (1 / 3)])"
proof -
  have n: "length demo_coils_same = 9" by (simp add: demo_coils_same_def)
  have "get_num_moments 1 1 \<le> int (length demo_coils_same)"
    by (simp add: get_num_moments_def n)
  from sss_basis_ok[OF _ _ this, of lpmv_ref "(0, 0, 0)"] obtain wl S_in S_out where
    ok: "sss_basis lpmv_ref (0, 0, 0) demo_coils_same 1 1 = (wl, Inr (S_in, S_out))" by auto
  from same_basis[OF ok] ok show ?thesis by simp
qed

lemma same_pinv:
  "is_pinv 9 6 (replicate 9 [1 / 3, - 1 / 3, - 1 / 3, 1 / 3, - 1 / 3, 1 / 3])
     (map (\<lambda>s. replicate 9 (s / 18)) [1, - 1, - 1, 1, - 1, 1])"
  by (simp add: is_pinv_def np_dot_def lessThan_Suc eval_nat_numeral transpose.simps)


lemma same_scale: "coil_scale_of demo_coils_same = replicate 9 1"
  by (simp add: coil_scale_of_def demo_coils_same_def)

lemma same_span:
  "np_dot 3 1 (replicate 9 [1 / 3, - 1 / 3, - 1 / 3]) [[3], [0], [0]] = replicate 9 [1]"
  by (simp add: np_dot_def lessThan_Suc eval_nat_numeral)

lemma same_reconstruct:
  "reconstruct (\<lambda>M c. map (\<lambda>s. replicate 9 (s / 18)) [1, - 1, - 1, 1, - 1, 1]) 3 1
     (replicate 9 [Some (1 / 3), Some (- 1 / 3), Some (- 1 / 3)])
     (replicate 9 [Some (1 / 3), Some (- 1 / 3), Some (1 / 3)])
     (replicate 9 [x]) (replicate 9 1) = Inr (replicate 9 [x / 2])"
  by (simp add: reconstruct_def project_def finite_matrix_def row_scale_def
      row_unscale_def np_dot_def Let_def lessThan_Suc eval_nat_numeral)

text \<open>
  Claim C6 says that for every data matrix in the column span of \<open>S_in\<close>, projecting and
  reconstructing twice gives the same as doing it once. For nine sensors with the same
  integration point and the same normal, at the orders 1 and 1, \<open>_sss_basis\<close> returns two
  matrices with constant columns: the combined basis has rank one and no left inverse.
  With its Moore-Penrose pseudo-inverse, the constant signal, which is in the span of
  \<open>S_in\<close>, is halved by every application.
\<close>

theorem projection_idempotent_counterexample:
  "snd (sss_basis lpmv_ref (0, 0, 0) demo_coils_same 1 1)
     = Inr (replicate 9 [Some (1 / 3), Some (- 1 / 3), Some (- 1 / 3)],
            replicate 9 [Some (1 / 3), Some (- 1 / 3), Some (1 / 3)])
   \<and> map2 (@) (replicate 9 [1 / 3, - 1 / 3, - 1 / 3]) (replicate 9 [1 / 3, - 1 / 3, 1 / 3])
       = replicate 9 [1 / 3, - 1 / 3, - 1 / 3, 1 / 3, - 1 / 3, 1 / (3 :: real)]
   \<and> is_pinv 9 6 (replicate 9 [1 / 3, - 1 / 3, - 1 / 3, 1 / 3, - 1 / 3, 1 / 3])
         (map (\<lambda>s. replicate 9 (s / 18)) [1, - 1, - 1, 1, - 1, 1])
   \<and> np_dot 3 1 (replicate 9 [1 / 3, - 1 / 3, - 1 / 3]) [[3], [0], [0]] = replicate 9 [1]
   \<and> reconstruct (\<lambda>M c. map (\<lambda>s. replicate 9 (s / 18)) [1, - 1, - 1, 1, - 1, 1]) 3 1
         (fst (projr (snd (sss_basis lpmv_ref (0, 0, 0) demo_coils_same 1 1))))
         (snd (projr (snd (sss_basis lpmv_ref (0, 0, 0) demo_coils_same 1 1))))
         (replicate 9 [1]) (coil_scale_of demo_coils_same) = Inr (replicate 9 [1 / 2])
   \<and> reconstruct (\<lambda>M c. map (\<lambda>s. replicate 9 (s / 18)) [1, - 1, - 1, 1, - 1, 1]) 3 1
         (fst (projr (snd (sss_basis lpmv_ref (0, 0, 0) demo_coils_same 1 1))))
         (snd (projr (snd (sss_basis lpmv_ref (0, 0, 0) demo_coils_same 1 1))))
         (replicate 9 [1 / 2]) (coil_scale_of demo_coils_same) = Inr (replicate 9 [1 / 4])
   \<and> replicate 9 [1 / 4] \<noteq> replicate 9 [1 / (2 :: real)]"
proof -
  have z: "map2 (@) (replicate 9 [1 / 3, - 1 / 3, - 1 / 3]) (replicate 9 [1 / 3, - 1 / 3, 1 / 3])
       = replicate 9 [1 / 3, - 1 / 3, - 1 / 3, 1 / 3, - 1 / 3, 1 / (3 :: real)]"
    by simp
  have r1: "reconstruct (\<lambda>M c. map (\<lambda>s. replicate 9 (s / 18)) [1, - 1, - 1, 1, - 1, 1]) 3 1
         (fst (projr (snd (sss_basis lpmv_ref (0, 0, 0) demo_coils_same 1 1))))
         (snd (projr (snd (sss_basis lpmv_ref (0, 0, 0) demo_coils_same 1 1))))
         (replicate 9 [1]) (coil_scale_of demo_coils_same) = Inr (replicate 9 [1 / 2])"
    unfolding same_basis_ok same_scale using same_reconstruct[of 1] by simp
  have r2: "reconstruct (\<lambda>M c. map (\<lambda>s. replicate 9 (s / 18)) [1, - 1, - 1, 1, - 1, 1]) 3 1
         (fst (projr (snd (sss_basis lpmv_ref (0, 0, 0) demo_coils_same 1 1))))
         (snd (projr (snd (sss_basis lpmv_ref (0, 0, 0) demo_coils_same 1 1))))
         (replicate 9 [1 / 2]) (coil_scale_of demo_coils_same) = Inr (replicate 9 [1 / 4])"
    unfolding same_basis_ok same_scale using same_reconstruct[of "1 / 2"] by simp
  have ne: "replicate 9 [1 / 4] \<noteq> replicate 9 [1 / (2 :: real)]"
    by (simp add: eval_nat_numeral)
  from same_basis_ok z same_pinv same_span r1 r2 ne show ?thesis by (intro conjI)
qed

text \<open>The basis of three sensors at the point \<open>(1, 0, 0)\<close> with their normals along the
  three axes, for the orders 1 and 0: the internal matrix has orthonormal columns, the
  external matrix has no column, and the transpose of the combined basis is its
  pseudo-inverse.\<close>

lemma replicate_3: "replicate 3 x = [x, x, x]"
  by (simp add: eval_nat_numeral)

lemma xyz_scaled:
  assumes M: "sss_scaled g (0, 0, 0) demo_coils_xyz 1 = Inr M"
    and gr: "g 1 m (replicate 3 (1, 0, Some (pi / 2)))
             = Inr (replicate 3 (Some gx, Some gy, Some gz))"
    and m: "- 1 \<le> m" "m \<le> 1"
  shows "M ! 0 ! nat (1 + m) = Some (- gx * 100) \<and> M ! 1 ! nat (1 + m) = Some (- gy)
         \<and> M ! 2 ! nat (1 + m) = Some (- gz)"
proof -
  let ?sp = "[(1, 0, Some (pi / 2)), (1, 0, Some (pi / 2)), (1, 0, Some (pi / 2))] :: sph list"
  let ?nc = "[(1, 0, 0), (0, 1, 0), (0, 0, 1)] :: vec3 list"
  let ?wc = "[1, 1, 1] :: real list"
  let ?il = "[0, 1, 2, 3] :: nat list"
  let ?cs = "[100, 1, 1] :: real list"
  let ?gr = "[(Some gx, Some gy, Some gz), (Some gx, Some gy, Some gz),
              (Some gx, Some gy, Some gz)] :: rgrad list"
  let ?F = "fill_side g 1 ?sp ?nc ?wc ?il ?cs 3"
  have "snd ?F = Inr M"
    using M unfolding sss_scaled_def concatenate_coils_def demo_coils_xyz_def
    by (simp add: same_sph int_lens_of_def coil_scale_of_def eval_nat_numeral)
  then have F: "?F = (fst ?F, Inr M)" by (metis prod.collapse)
  have h: "(0::int) \<le> 1" "length ?il - 1 = 3" "length ?cs = 3" by simp_all
  note fc = fill_side_content[OF h F]
  have mem: "(1, m) \<in> set (deg_order_pairs 1)" using m by (simp add: deg_order_pairs_mem)
  have ci: "col_index 1 m = 1 + m" by (simp add: col_index_def)
  from fc mem gr[unfolded replicate_3]
  have ent: "\<forall>i<3. M ! i ! nat (col_index 1 m)
                 = map_option (\<lambda>x. x * ?cs ! i) (int_pts_sum_of ?gr ?nc ?wc ?il i)"
    by blast
  have s0: "int_pts_sum_of ?gr ?nc ?wc ?il 0 = Some (- gx)"
    by (simp add: int_pts_sum_of_def weighted_dots_def py_slice_def np_sum_def lift2_def)
  have s1: "int_pts_sum_of ?gr ?nc ?wc ?il 1 = Some (- gy)"
    by (simp add: int_pts_sum_of_def weighted_dots_def py_slice_def np_sum_def lift2_def)
  have s2: "int_pts_sum_of ?gr ?nc ?wc ?il 2 = Some (- gz)"
    by (simp add: int_pts_sum_of_def weighted_dots_def py_slice_def np_sum_def lift2_def)
  have i0: "(0::nat) < 3" and i1: "(1::nat) < 3" and i2: "(2::nat) < 3" by simp_all
  from ent[rule_format, OF i0] ent[rule_format, OF i1] ent[rule_format, OF i2]
  show ?thesis unfolding ci s0 s1 s2 by simp
qed

lemma normalize_signed_perm:
  fixes a b c :: real
  assumes "0 < a" "0 < b" "0 < c"
  shows "normalize_cols 3 [[Some 0, Some 0, Some (- c)], [Some a, Some 0, Some 0],
                           [Some 0, Some (- b), Some 0]]
         = [[Some 0, Some 0, Some (- 1)], [Some 1, Some 0, Some 0], [Some 0, Some (- 1), Some 0]]"
  using assms
  by (simp add: normalize_cols_def col_sumsq_def np_sum_def lift2_def np_divo_def np_div_def
      eval_nat_numeral upt_rec)


lemma xyz_basis_ok:
  "snd (sss_basis lpmv_ref (0, 0, 0) demo_coils_xyz 1 0)
   = Inr ([[Some 0, Some 0, Some (- 1)], [Some 1, Some 0, Some 0], [Some 0, Some (- 1), Some 0]],
          [[], [], []])"
proof -
  let ?q = "sqrt 2 * sqrt (3 / (8 * pi))"
  let ?K = "sqrt (3 / (4 * pi))"
  have q: "0 < ?q" and K: "0 < ?K" using pi_gt_zero by simp_all
  have q2: "0 < 2 * ?q * 100" using q by linarith
  have h: "(0::int) \<le> 1" "(0::int) \<le> 0" by simp_all
  have n: "length demo_coils_xyz = 3" by (simp add: demo_coils_xyz_def)
  have "get_num_moments 1 0 \<le> int (length demo_coils_xyz)"
    by (simp add: get_num_moments_def n)
  from sss_basis_ok[OF h this, of lpmv_ref "(0, 0, 0)"] obtain wl S_in S_out where
    ok: "sss_basis lpmv_ref (0, 0, 0) demo_coils_xyz 1 0 = (wl, Inr (S_in, S_out))"
    and lo: "length S_out = 3" and ro: "\<forall>row\<in>set S_out. length row = nat (basis_cols 0)"
    unfolding n by auto
  from sss_basis_scaled[OF h ok] obtain M_in where
    mi: "sss_scaled (grad_in_components lpmv_ref) (0, 0, 0) demo_coils_xyz 1 = Inr M_in"
    and si: "S_in = normalize_cols (nat (basis_cols 1)) M_in" by blast
  have n3: "nat (basis_cols 1) = 3" by (simp add: basis_cols_def)
  from sss_scaled_shape[OF h(1) mi]
  have l: "length M_in = 3" and rows: "\<forall>row\<in>set M_in. length row = 3"
    unfolding n n3 by simp_all
  note c0 = xyz_scaled[OF mi grad_in_same(3)[of 3], simplified]
  note c1 = xyz_scaled[OF mi grad_in_same(1)[of 3], simplified]
  note c2 = xyz_scaled[OF mi grad_in_same(2)[of 3], simplified]
  have r0: "M_in ! 0 = [Some 0, Some 0, Some (- (2 * ?q * 100))]"
    apply (rule three_entries)
    using l rows c0 c1 c2 by (simp_all add: eval_nat_numeral)
  have r1: "M_in ! 1 = [Some ?q, Some 0, Some 0]"
    apply (rule three_entries)
    using l rows c0 c1 c2 by (simp_all add: eval_nat_numeral)
  have r2: "M_in ! 2 = [Some 0, Some (- ?K), Some 0]"
    apply (rule three_entries)
    using l rows c0 c1 c2 by (simp_all add: eval_nat_numeral)
  have M: "M_in = [[Some 0, Some 0, Some (- (2 * ?q * 100))], [Some ?q, Some 0, Some 0],
                   [Some 0, Some (- ?K), Some 0]]"
    by (rule three_entries[OF l r0 r1 r2])
  have a: "S_in = [[Some 0, Some 0, Some (- 1)], [Some 1, Some 0, Some 0],
                   [Some 0, Some (- 1), Some 0]]"
    unfolding si n3 M by (rule normalize_signed_perm[OF q K q2])
  have "\<forall>i<3. S_out ! i = []" using lo ro by (simp add: basis_cols_def)
  with lo have b: "S_out = [[], [], []]"
    by (intro three_entries) simp_all
  show ?thesis unfolding ok a b by simp
qed

lemma xyz_scale: "coil_scale_of demo_coils_xyz = [100, 1, 1]"
  by (simp add: coil_scale_of_def demo_coils_xyz_def)

lemma xyz_reconstruct:
  "reconstruct (\<lambda>M c. transpose M) 3 2
     [[Some 0, Some 0, Some (- 1)], [Some 1, Some 0, Some 0], [Some 0, Some (- 1), Some 0]]
     [[], [], []] [[1, 2], [3, 4], [5, 6]] [100, 1, 1] = Inr [[1, 2], [3, 4], [5, 6]]"
  by (simp add: reconstruct_def project_def finite_matrix_def row_scale_def row_unscale_def
      np_dot_def Let_def lessThan_Suc eval_nat_numeral transpose.simps)

text \<open>
  Claim C6, amended. Where the pseudo-inverse of the combined basis is a left inverse of it
  on the internal columns (as the Moore-Penrose pseudo-inverse is when the combined basis
  has full column rank), projecting and reconstructing twice gives the same as doing it
  once, for every data matrix, and so for every data matrix in the column span of \<open>S_in\<close>.
\<close>

theorem projection_idempotent:
  assumes d: "length data = n" and c: "length coils = n"
    and dr: "\<forall>row\<in>set data. length row = nt"
    and si: "length S_in = n" and sr: "\<forall>row\<in>set S_in. length row = n_in"
    and so: "length S_out = n"
    and fi: "finite_matrix S_in = Inr Si" and fo: "finite_matrix S_out = Inr So"
    and inv: "\<forall>k<n_in. \<forall>k'<n_in.
          (\<Sum>l<n. pinv (map2 (@) Si So) (1 / 10 ^ 15) ! k ! l * map2 (@) Si So ! l ! k')
          = (if k = k' then 1 else 0)"
    and r1: "reconstruct pinv n_in nt S_in S_out data (coil_scale_of coils) = Inr r1"
  shows "reconstruct pinv n_in nt S_in S_out r1 (coil_scale_of coils) = Inr r1"
proof -
  let ?cs = "coil_scale_of coils"
  let ?P = "pinv (map2 (@) Si So) (1 / 10 ^ 15)"
  have lcs: "length ?cs = n" using c by (simp add: coil_scale_of_def)
  from reconstruct_entries[OF d lcs dr si r1] fi fo
  have l1: "length r1 = n"
    and e1: "\<forall>i<n. length (r1 ! i) = nt
               \<and> (\<forall>j<nt. r1 ! i ! j
                     = (\<Sum>k<n_in. Si ! i ! k * (\<Sum>l<n. ?P ! k ! l * (data ! l ! j * ?cs ! l)))
                       / ?cs ! i)"
    by auto
  have rr: "\<forall>row\<in>set r1. length row = nt" using e1 l1 by (auto simp: in_set_conv_nth)
  from reconstruct_same_shape[OF r1, of r1] l1 d obtain r2 where
    r2: "reconstruct pinv n_in nt S_in S_out r1 ?cs = Inr r2" by auto
  from reconstruct_entries[OF l1 lcs rr si r2] fi fo
  have l2: "length r2 = n"
    and e2: "\<forall>i<n. length (r2 ! i) = nt
               \<and> (\<forall>j<nt. r2 ! i ! j
                     = (\<Sum>k<n_in. Si ! i ! k * (\<Sum>l<n. ?P ! k ! l * (r1 ! l ! j * ?cs ! l)))
                       / ?cs ! i)"
    by auto
  from finite_matrix_nth[OF fi] si sr
  have lSi: "length Si = n" and rSi: "\<forall>i<n. length (Si ! i) = n_in" by simp_all
  from finite_matrix_nth[OF fo] so have lSo: "length So = n" by simp
  have tot: "map2 (@) Si So ! l ! k' = Si ! l ! k'" if "l < n" "k' < n_in" for l k'
    using that lSi lSo rSi by (simp add: nth_append)
  have inv': "\<forall>k'<n_in. (\<Sum>l<n. ?P ! k ! l * Si ! l ! k') = (if k = k' then 1 else 0)"
    if k: "k < n_in" for k
  proof (intro allI impI)
    fix k' assume k': "k' < n_in"
    have "(\<Sum>l<n. ?P ! k ! l * Si ! l ! k') = (\<Sum>l<n. ?P ! k ! l * map2 (@) Si So ! l ! k')"
      by (rule sum.cong[OF refl]) (simp add: tot k')
    with inv k k' show "(\<Sum>l<n. ?P ! k ! l * Si ! l ! k') = (if k = k' then 1 else 0)" by simp
  qed
  have mm: "(\<Sum>l<n. ?P ! k ! l * (r1 ! l ! j * ?cs ! l))
            = (\<Sum>l<n. ?P ! k ! l * (data ! l ! j * ?cs ! l))"
    if k: "k < n_in" and j: "j < nt" for k j
  proof -
    let ?m = "\<lambda>k'. \<Sum>l<n. ?P ! k' ! l * (data ! l ! j * ?cs ! l)"
    have "(\<Sum>l<n. ?P ! k ! l * (r1 ! l ! j * ?cs ! l))
          = (\<Sum>l<n. ?P ! k ! l * (\<Sum>k'<n_in. Si ! l ! k' * ?m k'))"
    proof (rule sum.cong[OF refl])
      fix l assume "l \<in> {..<n}"
      then have l: "l < n" by simp
      then have nz: "?cs ! l \<noteq> 0" using coil_scale_nonzero c by simp
      from e1 l j have "r1 ! l ! j = (\<Sum>k'<n_in. Si ! l ! k' * ?m k') / ?cs ! l" by simp
      then have "r1 ! l ! j * ?cs ! l = (\<Sum>k'<n_in. Si ! l ! k' * ?m k')" using nz by simp
      then show "?P ! k ! l * (r1 ! l ! j * ?cs ! l)
                 = ?P ! k ! l * (\<Sum>k'<n_in. Si ! l ! k' * ?m k')" by simp
    qed
    also have "\<dots> = ?m k"
      by (rule block_collapse[where P = "\<lambda>k l. ?P ! k ! l" and S = "\<lambda>l k'. Si ! l ! k'",
            OF inv'[OF k] k])
    finally show ?thesis .
  qed
  have "r2 = r1"
  proof (rule nth_equalityI)
    show "length r2 = length r1" using l1 l2 by simp
  next
    fix i assume "i < length r2"
    then have i: "i < n" using l2 by simp
    show "r2 ! i = r1 ! i"
    proof (rule nth_equalityI)
      show "length (r2 ! i) = length (r1 ! i)" using e1 e2 i by simp
    next
      fix j assume "j < length (r2 ! i)"
      then have j: "j < nt" using e2 i by simp
      have "r2 ! i ! j
            = (\<Sum>k<n_in. Si ! i ! k * (\<Sum>l<n. ?P ! k ! l * (r1 ! l ! j * ?cs ! l))) / ?cs ! i"
        using e2 i j by simp
      also have "(\<Sum>k<n_in. Si ! i ! k * (\<Sum>l<n. ?P ! k ! l * (r1 ! l ! j * ?cs ! l)))
                 = (\<Sum>k<n_in. Si ! i ! k * (\<Sum>l<n. ?P ! k ! l * (data ! l ! j * ?cs ! l)))"
      proof (rule sum.cong[OF refl])
        fix k assume "k \<in> {..<n_in}"
        then have "k < n_in" by simp
        from mm[OF this j]
        show "Si ! i ! k * (\<Sum>l<n. ?P ! k ! l * (r1 ! l ! j * ?cs ! l))
              = Si ! i ! k * (\<Sum>l<n. ?P ! k ! l * (data ! l ! j * ?cs ! l))"
          by (rule arg_cong)
      qed
      also have "\<dots> / ?cs ! i = r1 ! i ! j" using e1 i j by simp
      finally show "r2 ! i ! j = r1 ! i ! j" .
    qed
  qed
  with r2 show ?thesis by simp
qed

theorem projection_idempotent_witness:
  "snd (sss_basis lpmv_ref (0, 0, 0) demo_coils_xyz 1 0)
     = Inr ([[Some 0, Some 0, Some (- 1)], [Some 1, Some 0, Some 0],
             [Some 0, Some (- 1), Some 0]], [[], [], []])
   \<and> finite_matrix [[Some 0, Some 0, Some (- 1)], [Some 1, Some 0, Some 0],
                     [Some 0, Some (- 1), Some 0]]
       = Inr [[0, 0, - 1], [1, 0, 0], [0, - 1, 0]]
   \<and> finite_matrix [[], [], []] = Inr [[], [], []]
   \<and> list_all (\<lambda>k. list_all (\<lambda>k'.
          (\<Sum>l<3. (\<lambda>M c. transpose M)
                     (map2 (@) [[0, 0, - 1], [1, 0, 0], [0, - 1, 0]] [[], [], []])
                     (1 / 10 ^ 15) ! k ! l
                   * map2 (@) [[0, 0, - 1], [1, 0, 0], [0, - 1, 0 :: real]] [[], [], []] ! l ! k')
          = (if k = k' then 1 else 0)) [0..<3]) [0..<3]
   \<and> reconstruct (\<lambda>M c. transpose M) 3 2
         (fst (projr (snd (sss_basis lpmv_ref (0, 0, 0) demo_coils_xyz 1 0))))
         (snd (projr (snd (sss_basis lpmv_ref (0, 0, 0) demo_coils_xyz 1 0))))
         [[1, 2], [3, 4], [5, 6]] (coil_scale_of demo_coils_xyz) = Inr [[1, 2], [3, 4], [5, 6]]
   \<and> finite_matrix [[Some 1], [Some 0]] = Inr [[1], [0]]
   \<and> finite_matrix [[Some 0], [Some 1]] = Inr [[0], [1]]
   \<and> reconstruct (\<lambda>M c. transpose M) 1 2 [[Some 1], [Some 0]] [[Some 0], [Some 1]]
         [[1, 2], [3, 4]] (coil_scale_of (take 2 demo_coils)) = Inr [[1, 2], [0, 0]]
   \<and> reconstruct (\<lambda>M c. transpose M) 1 2 [[Some 1], [Some 0]] [[Some 0], [Some 1]]
         [[1, 2], [0, 0]] (coil_scale_of (take 2 demo_coils)) = Inr [[1, 2], [0, 0]]"
proof -
  let ?Sin = "[[Some 0, Some 0, Some (- 1)], [Some 1, Some 0, Some 0],
               [Some 0, Some (- 1), Some (0 :: real)]]"
  let ?Sout = "[[], [], []] :: matrix"
  let ?Si = "[[0, 0, - 1], [1, 0, 0], [0, - 1, 0 :: real]]"
  let ?So = "[[], [], []] :: rmat"
  let ?d = "[[1, 2], [3, 4], [5, 6 :: real]]"
  have g: "length ?d = 3" "length demo_coils_xyz = 3" "\<forall>row\<in>set ?d. length row = 2"
    "length ?Sin = 3" "\<forall>row\<in>set ?Sin. length row = 3" "length ?Sout = 3"
    by (simp_all add: demo_coils_xyz_def)
  have gf: "finite_matrix ?Sin = Inr ?Si" "finite_matrix ?Sout = Inr ?So"
    by (simp_all add: finite_matrix_def)
  have ginv: "\<forall>k<3. \<forall>k'<3.
          (\<Sum>l<3. (\<lambda>M c. transpose M) (map2 (@) ?Si ?So) (1 / 10 ^ 15) ! k ! l
                    * map2 (@) ?Si ?So ! l ! k')
          = (if k = k' then 1 else 0)"
    by (simp add: lessThan_Suc eval_nat_numeral transpose.simps less_Suc_eq)
  have gl: "list_all (\<lambda>k. list_all (\<lambda>k'.
          (\<Sum>l<3. (\<lambda>M c. transpose M) (map2 (@) ?Si ?So) (1 / 10 ^ 15) ! k ! l
                   * map2 (@) ?Si ?So ! l ! k')
          = (if k = k' then 1 else 0)) [0..<3]) [0..<3]"
    using ginv by (simp add: list_all_iff)
  have gr: "reconstruct (\<lambda>M c. transpose M) 3 2 ?Sin ?Sout ?d (coil_scale_of demo_coils_xyz)
            = Inr ?d"
    unfolding xyz_scale by (rule xyz_reconstruct)
  note g1 = projection_idempotent[OF g gf ginv gr]
  have gr': "reconstruct (\<lambda>M c. transpose M) 3 2
         (fst (projr (snd (sss_basis lpmv_ref (0, 0, 0) demo_coils_xyz 1 0))))
         (snd (projr (snd (sss_basis lpmv_ref (0, 0, 0) demo_coils_xyz 1 0))))
         ?d (coil_scale_of demo_coils_xyz) = Inr ?d"
    unfolding xyz_basis_ok using g1 by simp
  have h: "length [[1, 2], [3, 4 :: real]] = 2" "length (take 2 demo_coils) = 2"
    "\<forall>row\<in>set [[1, 2], [3, 4 :: real]]. length row = 2"
    "length [[Some 1], [Some (0 :: real)]] = 2"
    "\<forall>row\<in>set [[Some 1], [Some (0 :: real)]]. length row = 1"
    "length [[Some 0], [Some (1 :: real)]] = 2"
    by (simp_all add: demo_coils_def)
  have f: "finite_matrix [[Some 1], [Some 0]] = Inr [[1], [0]]"
    "finite_matrix [[Some 0], [Some 1]] = Inr [[0], [1]]"
    by (simp_all add: finite_matrix_def)
  have inv: "\<forall>k<1. \<forall>k'<1.
          (\<Sum>l<2. (\<lambda>M c. transpose M) (map2 (@) [[1], [0]] [[0], [1]]) (1 / 10 ^ 15) ! k ! l
                    * map2 (@) [[1], [0]] [[0], [1 :: real]] ! l ! k')
          = (if k = k' then 1 else 0)"
    by (simp add: lessThan_Suc eval_nat_numeral transpose.simps)
  have r: "reconstruct (\<lambda>M c. transpose M) 1 2 [[Some 1], [Some 0]] [[Some 0], [Some 1]]
         [[1, 2], [3, 4]] (coil_scale_of (take 2 demo_coils)) = Inr [[1, 2], [0, 0]]"
    unfolding demo_scale by (rule demo_reconstruct)
  note g2 = projection_idempotent[OF h f inv r]
  from xyz_basis_ok gf gl gr' f r g2 show ?thesis by (intro conjI)
qed

subsection \<open>The container returned and the container passed\<close>

lemma maxwell_filter_returns:
  assumes dist: "distinct (ch_names r)" and len: "length (raw_data r) = length (chs r)"
    and ret: "maxwell_filter lpmv pinv geom r origin int_order ext_order = (st, r', Inr out)"
  defines "n \<equiv> length (filter is_meg (chs r))"
  defines "origin_m \<equiv> (case origin of (x, y, z) \<Rightarrow> (x / 1000, y / 1000, z / 1000))"
  defines "coils \<equiv> map (coil_of geom) (take n (chs r))"
  shows "r' = r\<lparr>chs := take n (chs r), raw_data := take n (raw_data r)\<rparr>
         \<and> (\<exists>wl S_in S_out nm rec.
               sss_basis lpmv origin_m coils int_order ext_order = (wl, Inr (S_in, S_out))
               \<and> reconstruct pinv (nat (basis_cols int_order)) (n_times r) S_in S_out
                    (take n (raw_data r)) (coil_scale_of coils) = Inr rec
               \<and> assign_all (take n (raw_data r)) rec = Inr (raw_data out)
               \<and> out = (update_info r' origin_m int_order ext_order n nm)
                          \<lparr>raw_data := raw_data out\<rparr>)"
proof -
  from ret have nb: "\<not> length (bads r) > 0"
    by (auto simp: maxwell_filter_def split: if_splits)
  from ret nb obtain cs picks data where
    sel: "select_channels geom r = (r', Inr (cs, picks, data))"
    by (auto simp: maxwell_filter_def Let_def split: prod.splits sum.splits)
  note ok = select_channels_ok[OF dist len sel, folded n_def]
  from ok have cs: "cs = coils" and da: "data = take n (raw_data r)"
    and r': "r' = r\<lparr>chs := take n (chs r), raw_data := take n (raw_data r)\<rparr>"
    and nle: "n \<le> length (chs r)"
    by (simp_all add: coils_def)
  have ld: "length data = n" using da len nle by simp
  have nt: "n_times r' = n_times r" using r' by simp
  from ret nb sel obtain S_in S_out nm recon d where
    sb: "snd (sss_basis lpmv origin_m cs int_order ext_order) = Inr (S_in, S_out)"
    and pr: "project pinv (nat (basis_cols int_order)) (n_times r') S_in S_out data
               (coil_scale_of cs) = Inr (nm, recon)"
    and as: "assign_all (raw_data (update_info r' origin_m int_order ext_order (length data) nm))
               (row_unscale recon (coil_scale_of cs)) = Inr d"
    and out: "out = (update_info r' origin_m int_order ext_order (length data) nm)
                      \<lparr>raw_data := d\<rparr>"
    unfolding maxwell_filter_def origin_m_def
    by (auto simp: Let_def split: prod.splits sum.splits)
  have d: "d = raw_data out" using out by simp
  have rec: "reconstruct pinv (nat (basis_cols int_order)) (n_times r) S_in S_out
                    (take n (raw_data r)) (coil_scale_of coils)
             = Inr (row_unscale recon (coil_scale_of coils))"
    using pr unfolding nt cs da by (simp add: reconstruct_def)
  have ui: "raw_data (update_info r' origin_m int_order ext_order (length data) nm)
            = take n (raw_data r)"
    using r' by (simp add: update_info_def Let_def)
  have sb': "sss_basis lpmv origin_m coils int_order ext_order
             = (fst (sss_basis lpmv origin_m coils int_order ext_order), Inr (S_in, S_out))"
    using sb unfolding cs by (metis prod.collapse)
  have as': "assign_all (take n (raw_data r)) (row_unscale recon (coil_scale_of coils))
             = Inr (raw_data out)"
    using as unfolding ui d cs .
  have out': "out = (update_info r' origin_m int_order ext_order n nm)
                      \<lparr>raw_data := raw_data out\<rparr>"
    using out unfolding d ld .
  from sb' rec as' out'
  have "\<exists>wl S_in S_out nm rec.
               sss_basis lpmv origin_m coils int_order ext_order = (wl, Inr (S_in, S_out))
               \<and> reconstruct pinv (nat (basis_cols int_order)) (n_times r) S_in S_out
                    (take n (raw_data r)) (coil_scale_of coils) = Inr rec
               \<and> assign_all (take n (raw_data r)) rec = Inr (raw_data out)
               \<and> out = (update_info r' origin_m int_order ext_order n nm)
                          \<lparr>raw_data := raw_data out\<rparr>"
    by (intro exI conjI)
  with r' show ?thesis by (rule conjI)
qed

lemma restriction_unchanged_iff:
  assumes "length (raw_data r) = length (chs r)"
  shows "r\<lparr>chs := take n (chs r), raw_data := take n (raw_data r)\<rparr> = r
         \<longleftrightarrow> length (chs r) \<le> n"
proof
  assume "r\<lparr>chs := take n (chs r), raw_data := take n (raw_data r)\<rparr> = r"
  then have "chs (r\<lparr>chs := take n (chs r), raw_data := take n (raw_data r)\<rparr>) = chs r"
    by simp
  then have "take n (chs r) = chs r" by simp
  then have "length (take n (chs r)) = length (chs r)" by simp
  then show "length (chs r) \<le> n" by simp
next
  assume "length (chs r) \<le> n"
  then show "r\<lparr>chs := take n (chs r), raw_data := take n (raw_data r)\<rparr> = r"
    using assms by simp
qed

lemma demo_basis_zero:
  "sss_basis lpmv (0, 0, 0) demo_coils 0 0 = ([], Inr ([[], [], []], [[], [], []]))"
  by (simp add: sss_basis_def sss_basis_with_def concatenate_coils_def demo_coils_def
      get_num_moments_def basis_cols_def cart_to_sph_def sss_side_def fill_side_def
      deg_order_pairs_def scale_rows_def normalize_cols_def coil_scale_of_def Let_def)

lemma demo_project_zero:
  "project (\<lambda>M c. []) 0 2 [[], [], []] [[], [], []] [[1, 2], [3, 4], [5, 6]] [100, 1, 1]
   = Inr (0, [[0, 0], [0, 0], [0, 0]])"
  by (simp add: project_def finite_matrix_def np_dot_def row_scale_def Let_def
      eval_nat_numeral)

text \<open>With the orders 0 and 0 the basis matrices have no column, the pseudo-inverse of
  the combined matrix has no row, and the call on the reference recording returns: the
  container returned has the three MEG channels, and the container passed is left with the
  same three channels.\<close>

lemma demo_maxwell_filter:
  "maxwell_filter lpmv_ref (\<lambda>M c. []) demo_geom demo_raw (0, 0, 0) 0 0
   = ([CoilConstruction, BasisAssembly, Projection, Output],
      demo_raw\<lparr>chs := take 3 (chs demo_raw), raw_data := take 3 (raw_data demo_raw)\<rparr>,
      Inr \<lparr>chs = take 3 (chs demo_raw), bads = [], maxshield = Some False,
           proc_history = Some [\<lparr>pi_int_order = 0, pi_ext_order = 0, pi_origin = (0, 0, 0),
                                   pi_nsens = 3, pi_nmoments = 0,
                                   pi_creator = ''MNE's Maxwell Filter''\<rparr>],
           raw_data = [[0, 0], [0, 0], [0, 0]], n_times = 2\<rparr>)"
proof -
  have cs: "coil_scale_of demo_coils = [100, 1, 1]"
    by (simp add: coil_scale_of_def demo_coils_def)
  have b: "bads demo_raw = []" and nt: "n_times demo_raw = 2"
    and ph: "proc_history demo_raw = None" by (simp_all add: demo_raw_def)
  show ?thesis
    unfolding maxwell_filter_def
    by (simp add: b demo_select demo_basis_zero cs basis_cols_def nt demo_project_zero
        update_info_def ph assign_all_def row_unscale_def Let_def)
      (simp add: demo_raw_def)
qed

text \<open>Once the check of the bad channels has passed, the container is left as the channel
  selection of lines 68 to 77 leaves it, whether the call returns or raises.\<close>

lemma maxwell_filter_leaves:
  assumes "bads r = []" and "select_channels geom r = (r1, res)"
  shows "fst (snd (maxwell_filter lpmv pinv geom r origin int_order ext_order)) = r1"
  using assms unfolding maxwell_filter_def
  by (simp add: Let_def split: sum.splits prod.splits)

text \<open>
  Claim C9 says that \<open>maxwell_filter\<close> returns a copy of the input container, with the
  rows of the MEG channels replaced and a provenance record attached, and leaves the input
  container as it was. Line 75 restricts \<open>raw\<close> itself to the MEG channels, before the
  copy of line 97 is taken: on a recording with three MEG channels and one EEG channel,
  for every origin, every pair of orders, every \<open>lpmv\<close> and every \<open>pinv\<close>, and whether the
  call returns or raises after line 75, the container that was passed has lost its EEG
  channel and the row of its data.
\<close>

theorem maxwell_filter_modifies_input:
  "fst (snd (maxwell_filter lpmv pinv demo_geom demo_raw origin int_order ext_order))
   = demo_raw\<lparr>chs := take 3 (chs demo_raw), raw_data := take 3 (raw_data demo_raw)\<rparr>
   \<and> demo_raw\<lparr>chs := take 3 (chs demo_raw), raw_data := take 3 (raw_data demo_raw)\<rparr>
       \<noteq> demo_raw"
proof -
  have b: "bads demo_raw = []" by (simp add: demo_raw_def)
  have neq: "demo_raw\<lparr>chs := take 3 (chs demo_raw), raw_data := take 3 (raw_data demo_raw)\<rparr>
             \<noteq> demo_raw"
  proof
    assume "demo_raw\<lparr>chs := take 3 (chs demo_raw), raw_data := take 3 (raw_data demo_raw)\<rparr>
            = demo_raw"
    then have "chs (demo_raw\<lparr>chs := take 3 (chs demo_raw),
                 raw_data := take 3 (raw_data demo_raw)\<rparr>) = chs demo_raw" by simp
    then have "length (take 3 (chs demo_raw)) = length (chs demo_raw)" by simp
    then show False by (simp add: demo_raw_def)
  qed
  from maxwell_filter_leaves[OF b demo_select] neq show ?thesis by blast
qed

end
